theory Spec2Isabelle
  imports Main "HOL-Library.Sublist"
begin

section \<open>Text primitives of the interpreter\<close>

text \<open>
  Text is modelled as \<^typ>\<open>string\<close>.  The character classes below are those of
  Python's \<^verbatim>\<open>str.strip\<close>, \<^verbatim>\<open>str.lower\<close> and of the regular-expression classes
  \<^verbatim>\<open>\d\<close> and \<^verbatim>\<open>\w\<close> on ASCII text; a character above 127 is taken to be neither a
  space, a letter nor a digit and is left alone by \<open>lower\<close>.  A non-ASCII character of a
  literal of the program is written as the bytes of its UTF-8 encoding.
\<close>

definition is_space :: "char \<Rightarrow> bool" where
  "is_space c = (c \<in> {CHR 0x09, CHR 0x0A, CHR 0x0B, CHR 0x0C, CHR 0x0D,
                       CHR 0x1C, CHR 0x1D, CHR 0x1E, CHR 0x1F, CHR 0x20})"

definition is_digit :: "char \<Rightarrow> bool" where
  "is_digit c = (48 \<le> (of_char c :: nat) \<and> (of_char c :: nat) \<le> 57)"

definition is_upper :: "char \<Rightarrow> bool" where
  "is_upper c = (65 \<le> (of_char c :: nat) \<and> (of_char c :: nat) \<le> 90)"

definition is_lower :: "char \<Rightarrow> bool" where
  "is_lower c = (97 \<le> (of_char c :: nat) \<and> (of_char c :: nat) \<le> 122)"

definition is_alpha :: "char \<Rightarrow> bool" where
  "is_alpha c = (is_upper c \<or> is_lower c)"

text \<open>The class \<^verbatim>\<open>\w\<close>: letters, digits and the underscore.\<close>

definition is_word :: "char \<Rightarrow> bool" where
  "is_word c = (is_alpha c \<or> is_digit c \<or> c = CHR ''_'')"

definition lower_char :: "char \<Rightarrow> char" where
  "lower_char c = (if is_upper c then char_of ((of_char c :: nat) + 32) else c)"

text \<open>\<^verbatim>\<open>s.lower()\<close>\<close>

definition lower :: "string \<Rightarrow> string" where
  "lower s = map lower_char s"

text \<open>\<^verbatim>\<open>s.strip()\<close>: leading and trailing white space removed.\<close>

definition strip :: "string \<Rightarrow> string" where
  "strip s = rev (dropWhile is_space (rev (dropWhile is_space s)))"

text \<open>\<^verbatim>\<open>w in txt\<close> on strings: \<open>w\<close> occurs in \<open>txt\<close> as a contiguous piece.\<close>

fun contains :: "string \<Rightarrow> string \<Rightarrow> bool" where
  "contains [] w = (w = [])"
| "contains (c # cs) w = (prefix w (c # cs) \<or> contains cs w)"

text \<open>\<^verbatim>\<open>sep.join(xs)\<close>\<close>

fun join :: "string \<Rightarrow> string list \<Rightarrow> string" where
  "join sep [] = []"
| "join sep [x] = x"
| "join sep (x # y # ys) = x @ sep @ join sep (y # ys)"

text \<open>\<^verbatim>\<open>str(n)\<close> of an integer: its decimal digits, with a minus sign when negative.\<close>

definition digit_char :: "nat \<Rightarrow> char" where
  "digit_char d = char_of (48 + d)"

fun str_nat :: "nat \<Rightarrow> string" where
  "str_nat n = (if n < 10 then [digit_char n] else str_nat (n div 10) @ [digit_char (n mod 10)])"

declare str_nat.simps [simp del]

definition str_int :: "int \<Rightarrow> string" where
  "str_int i = (if i < 0 then CHR ''-'' # str_nat (nat (- i)) else str_nat (nat i))"

text \<open>The exceptions the program can end with.\<close>

datatype error = EOFError | TypeError | AttributeError | ValueError

text \<open>
  The interpreter refuses to convert between \<^verbatim>\<open>int\<close> and \<^verbatim>\<open>str\<close> when more
  than \<^verbatim>\<open>sys.get_int_max_str_digits()\<close> digits are involved, 4300 unless configured
  otherwise, and raises \<^verbatim>\<open>ValueError\<close>; the sign does not count, leading zeros do.
\<close>

definition int_max_str_digits :: nat where
  "int_max_str_digits = 4300"

text \<open>\<^verbatim>\<open>str(n)\<close> and \<^verbatim>\<open>{n}\<close> in an f-string, with the limit.\<close>

definition py_str :: "int \<Rightarrow> error + string" where
  "py_str i =
     (if int_max_str_digits < length (str_nat (nat \<bar>i\<bar>)) then Inl ValueError else Inr (str_int i))"

text \<open>
  \<^verbatim>\<open>int(x)\<close> on a string that matches \<^verbatim>\<open>-?\d+\<close>.  Python's integers are unbounded,
  and so is \<^typ>\<open>int\<close>: \<open>int_value\<close> is the number written, \<open>py_int\<close> the call,
  which raises beyond the limit.
\<close>

definition digit_val :: "char \<Rightarrow> nat" where
  "digit_val c = (of_char c :: nat) - 48"

definition nat_of_digits :: "string \<Rightarrow> nat" where
  "nat_of_digits ds = foldl (\<lambda>n c. 10 * n + digit_val c) 0 ds"

definition int_value :: "string \<Rightarrow> int" where
  "int_value s = (case s of
                    [] \<Rightarrow> 0
                  | c # cs \<Rightarrow> if c = CHR ''-'' then - int (nat_of_digits cs)
                              else int (nat_of_digits (c # cs)))"

definition digit_count :: "string \<Rightarrow> nat" where
  "digit_count s = (case s of
                      [] \<Rightarrow> 0
                    | c # cs \<Rightarrow> if c = CHR ''-'' then length cs else length (c # cs))"

definition py_int :: "string \<Rightarrow> error + int" where
  "py_int s = (if int_max_str_digits < digit_count s then Inl ValueError else Inr (int_value s))"

text \<open>\<^verbatim>\<open>re.fullmatch(r"-?\d+", x)\<close>\<close>

definition digits1 :: "string \<Rightarrow> bool" where
  "digits1 ds = (ds \<noteq> [] \<and> list_all is_digit ds)"

definition fullmatch_int :: "string \<Rightarrow> bool" where
  "fullmatch_int s = (case s of
                        [] \<Rightarrow> False
                      | c # cs \<Rightarrow> if c = CHR ''-'' then digits1 cs else digits1 (c # cs))"

text \<open>\<^verbatim>\<open>re.fullmatch(r"[A-Za-z]\w{2,15}", x)\<close>\<close>

definition fullmatch_id :: "string \<Rightarrow> bool" where
  "fullmatch_id s = (case s of
                       [] \<Rightarrow> False
                     | c # cs \<Rightarrow> is_alpha c \<and> 2 \<le> length cs \<and> length cs \<le> 15
                                 \<and> list_all is_word cs)"

text \<open>\<^verbatim>\<open>x.replace(",", "")\<close>\<close>

definition remove_commas :: "string \<Rightarrow> string" where
  "remove_commas x = filter (\<lambda>c. c \<noteq> CHR '','') x"

text \<open>\<^verbatim>\<open>xs.index(v)\<close>: the first position of \<open>v\<close>; every call below follows a membership test.\<close>

definition index :: "'a list \<Rightarrow> 'a \<Rightarrow> nat" where
  "index xs v = length (takeWhile (\<lambda>x. x \<noteq> v) xs)"

text \<open>The non-ASCII punctuation of the program's literals, in UTF-8.\<close>

definition en_dash :: string where
  "en_dash = [CHR 0xE2, CHR 0x80, CHR 0x93]"

definition em_dash :: string where
  "em_dash = [CHR 0xE2, CHR 0x80, CHR 0x94]"

definition rsquo :: string where
  "rsquo = [CHR 0xE2, CHR 0x80, CHR 0x99]"


section \<open>Personas and the persona detector\<close>

definition PERSONAS :: "string list" where
  "PERSONAS = [''cooperative'', ''evasive'', ''aggressive'', ''confused'']"

definition TONE_MAP :: "(string \<times> string) list" where
  "TONE_MAP =
     [(''cooperative'', ''friendly and informative''),
      (''evasive'', ''polite but assertive''),
      (''aggressive'', ''calm and empathetic''),
      (''confused'', ''patient, clear, and supportive'')]"

definition NEGATIVE_WORDS :: "string list" where
  "NEGATIVE_WORDS = [''terrible'', ''worst'', ''angry'', ''useless'', ''hate'', ''annoyed'', ''mad'']"

text \<open>
  Every entry of \<^verbatim>\<open>EVADE_PATTERNS\<close> is a literal phrase between two \<^verbatim>\<open>\b\<close>; the list
  holds the phrases, and \<open>re_search_b\<close> below is \<^verbatim>\<open>re.search\<close> of such a pattern.
\<close>

definition EVADE_PATTERNS :: "string list" where
  "EVADE_PATTERNS = [''i don't know'', ''not sure'', ''later'', ''skip'', ''maybe'']"

text \<open>
  \<^verbatim>\<open>\b\<close> holds between two neighbouring positions when exactly one of them is a word
  character; the outside of the string counts as a non-word character.
\<close>

definition is_word_opt :: "char option \<Rightarrow> bool" where
  "is_word_opt c = (case c of None \<Rightarrow> False | Some d \<Rightarrow> is_word d)"

definition word_boundary :: "char option \<Rightarrow> char option \<Rightarrow> bool" where
  "word_boundary prev nxt = (is_word_opt prev \<noteq> is_word_opt nxt)"

definition head_opt :: "string \<Rightarrow> char option" where
  "head_opt s = (case s of [] \<Rightarrow> None | c # _ \<Rightarrow> Some c)"

text \<open>The pattern matches at the position that has \<open>prev\<close> before it and \<open>txt\<close> from it on.\<close>

definition match_at :: "string \<Rightarrow> char option \<Rightarrow> string \<Rightarrow> bool" where
  "match_at lit prev txt =
     (prefix lit txt
      \<and> word_boundary prev (head_opt txt)
      \<and> word_boundary (if lit = [] then prev else Some (last lit))
                        (head_opt (drop (length lit) txt)))"

fun search_from :: "string \<Rightarrow> char option \<Rightarrow> string \<Rightarrow> bool" where
  "search_from lit prev [] = match_at lit prev []"
| "search_from lit prev (c # cs) = (match_at lit prev (c # cs) \<or> search_from lit (Some c) cs)"

definition re_search_b :: "string \<Rightarrow> string \<Rightarrow> bool" where
  "re_search_b lit txt = search_from lit None txt"

text \<open>The cues of the third test of \<^verbatim>\<open>detect_persona\<close>, a list written in place there.\<close>

definition CONFUSED_CUES :: "string list" where
  "CONFUSED_CUES = [''?'', ''what do you mean'', ''how'', ''help'', ''confused'']"

definition is_aggressive :: "string \<Rightarrow> bool" where
  "is_aggressive txt = (list_ex (contains txt) NEGATIVE_WORDS \<or> contains txt ''!'')"

definition is_evasive :: "string \<Rightarrow> bool" where
  "is_evasive txt = list_ex (\<lambda>p. re_search_b p txt) EVADE_PATTERNS"

definition is_confused :: "string \<Rightarrow> bool" where
  "is_confused txt = list_ex (contains txt) CONFUSED_CUES"

definition detect_persona :: "string \<Rightarrow> string" where
  "detect_persona user_text =
     (let txt = strip (lower user_text) in
      if is_aggressive txt then ''aggressive''
      else if is_evasive txt then ''evasive''
      else if is_confused txt then ''confused''
      else ''cooperative'')"


section \<open>Values and validators\<close>

text \<open>
  Python's \<^verbatim>\<open>float\<close> is not part of the program: the parser \<^verbatim>\<open>float(x)\<close> (with
  \<open>None\<close> for its \<^verbatim>\<open>ValueError\<close>), the conversion of an integer literal, the two
  comparisons and \<^verbatim>\<open>str\<close> are parameters of the model, over any type \<open>'f\<close> of floats.
\<close>

record 'f float_ops =
  float_of_str :: "string \<Rightarrow> 'f option"
  float_of_int :: "int \<Rightarrow> 'f"
  float_le :: "'f \<Rightarrow> 'f \<Rightarrow> bool"
  float_lt :: "'f \<Rightarrow> 'f \<Rightarrow> bool"
  float_str :: "'f \<Rightarrow> string"

datatype 'f pyval = VNone | VInt int | VFloat 'f | VStr string

text \<open>What a validator returns: the flag, the value (or \<open>VNone\<close>) and the error text.\<close>

type_synonym 'f outcome = "bool \<times> 'f pyval \<times> string"

text \<open>
  The two bounds as both messages of \<^verbatim>\<open>int_in_range\<close> format them,
  \<^verbatim>\<open>{min_v} and {max_v}\<close>.
\<close>

definition bounds_text :: "int \<Rightarrow> int \<Rightarrow> error + string" where
  "bounds_text min_v max_v =
     (case py_str min_v of
        Inl e \<Rightarrow> Inl e
      | Inr a \<Rightarrow> (case py_str max_v of Inl e \<Rightarrow> Inl e | Inr b \<Rightarrow> Inr (a @ '' and '' @ b)))"

text \<open>
  \<^verbatim>\<open>int_in_range\<close> catches nothing: what \<^verbatim>\<open>int(x)\<close> or an f-string raises leaves
  the validator as an exception.
\<close>

definition int_in_range :: "int \<Rightarrow> int \<Rightarrow> string \<Rightarrow> error + 'f outcome" where
  "int_in_range min_v max_v x0 =
     (let x = strip x0 in
      if \<not> fullmatch_int x then
        (case bounds_text min_v max_v of
           Inl e \<Rightarrow> Inl e
         | Inr b \<Rightarrow> Inr (False, VNone, ''Please enter a whole number between '' @ b @ ''.''))
      else
        (case py_int x of
           Inl e \<Rightarrow> Inl e
         | Inr val \<Rightarrow>
             if \<not> (min_v \<le> val \<and> val \<le> max_v) then
               (case bounds_text min_v max_v of
                  Inl e \<Rightarrow> Inl e
                | Inr b \<Rightarrow> Inr (False, VNone, ''Value must be between '' @ b @ ''.''))
             else Inr (True, VInt val, [])))"

definition float_in_range :: "'f float_ops \<Rightarrow> 'f \<Rightarrow> 'f \<Rightarrow> string \<Rightarrow> 'f outcome" where
  "float_in_range fp min_v max_v x0 =
     (let x = remove_commas (strip x0) in
      case float_of_str fp x of
        None \<Rightarrow>
          (False, VNone,
           ''Please enter a number between '' @ float_str fp min_v @ '' and '' @ float_str fp max_v @ ''.'')
      | Some val \<Rightarrow>
          if \<not> (float_le fp min_v val \<and> float_le fp val max_v) then
            (False, VNone,
             ''Value must be between '' @ float_str fp min_v @ '' and '' @ float_str fp max_v @ ''.'')
          else (True, VFloat val, []))"

definition positive_float :: "'f float_ops \<Rightarrow> string \<Rightarrow> 'f outcome" where
  "positive_float fp x0 =
     (let x = remove_commas (strip x0) in
      case float_of_str fp x of
        None \<Rightarrow> (False, VNone, ''Please enter a positive number.'')
      | Some val \<Rightarrow>
          if float_le fp val (float_of_int fp 0) then (False, VNone, ''Value must be > 0.'')
          else (True, VFloat val, []))"

definition one_of :: "string list \<Rightarrow> string \<Rightarrow> 'f outcome" where
  "one_of options x =
     (let lower_opts = map lower options;
          s = strip x in
      if lower s \<notin> set lower_opts then
        (False, VNone, ''Please choose one of: '' @ join '', '' options @ ''.'')
      else (True, VStr (options ! index lower_opts (lower s)), []))"

text \<open>The validator of \<^verbatim>\<open>CustomerID\<close>, a lambda written in place in the schema.\<close>

definition customer_id :: "string \<Rightarrow> 'f outcome" where
  "customer_id s =
     (fullmatch_id (strip s), VStr (strip s),
      ''ID should start with a letter and be 3'' @ en_dash @ ''16 chars.'')"


section \<open>The answer set and the field schema\<close>

text \<open>
  The dictionary \<^verbatim>\<open>state\<close> keeps its keys in insertion order: an association list,
  where storing under a key already present replaces the value in place and storing under
  a new key appends.
\<close>

type_synonym 'f answers = "(string \<times> 'f pyval) list"

definition keys :: "'f answers \<Rightarrow> string list" where
  "keys st = map fst st"

definition dict_get :: "'f answers \<Rightarrow> string \<Rightarrow> 'f pyval \<Rightarrow> 'f pyval" where
  "dict_get st k dflt = (case map_of st k of None \<Rightarrow> dflt | Some v \<Rightarrow> v)"

definition dict_set :: "'f answers \<Rightarrow> string \<Rightarrow> 'f pyval \<Rightarrow> 'f answers" where
  "dict_set st k v =
     (if k \<in> set (keys st) then map (\<lambda>(k', v'). if k' = k then (k', v) else (k', v')) st
      else st @ [(k, v)])"

text \<open>
  A validator is called with a line and returns an outcome or ends with an exception;
  \<open>returns v\<close> is a validator \<open>v\<close> that raises nothing.
\<close>

definition returns :: "(string \<Rightarrow> 'f outcome) \<Rightarrow> string \<Rightarrow> error + 'f outcome" where
  "returns v x = Inr (v x)"

record 'f FieldSpec =
  name :: string
  prompt :: string
  validator :: "string \<Rightarrow> error + 'f outcome"
  required :: bool
  depends_on :: "('f answers \<Rightarrow> error + bool) option"

text \<open>The constructor, with \<^verbatim>\<open>required\<close> at its default.\<close>

definition field_spec ::
  "string \<Rightarrow> string \<Rightarrow> (string \<Rightarrow> error + 'f outcome) \<Rightarrow> ('f answers \<Rightarrow> error + bool) option
     \<Rightarrow> 'f FieldSpec"
where
  "field_spec n p v d = \<lparr>name = n, prompt = p, validator = v, required = True, depends_on = d\<rparr>"

text \<open>\<^verbatim>\<open>v > 0\<close> on a stored value; a string or \<^verbatim>\<open>None\<close> there raises \<^verbatim>\<open>TypeError\<close>.\<close>

definition gt_zero :: "'f float_ops \<Rightarrow> 'f pyval \<Rightarrow> error + bool" where
  "gt_zero fp v =
     (case v of
        VInt n \<Rightarrow> Inr (0 < n)
      | VFloat x \<Rightarrow> Inr (float_lt fp (float_of_int fp 0) x)
      | VStr s \<Rightarrow> Inl TypeError
      | VNone \<Rightarrow> Inl TypeError)"

definition income_optional_if_unemployed_or_student :: "'f answers \<Rightarrow> error + bool" where
  "income_optional_if_unemployed_or_student st =
     (case dict_get st ''EmploymentStatus'' (VStr []) of
        VStr s \<Rightarrow> Inr (lower s \<notin> {''unemployed'', ''student''})
      | VInt n \<Rightarrow> Inl AttributeError
      | VFloat x \<Rightarrow> Inl AttributeError
      | VNone \<Rightarrow> Inl AttributeError)"

definition partial_payments_if_missed :: "'f float_ops \<Rightarrow> 'f answers \<Rightarrow> error + bool" where
  "partial_payments_if_missed fp st = gt_zero fp (dict_get st ''MissedPayments'' (VInt 0))"

definition SCHEMA :: "'f float_ops \<Rightarrow> 'f FieldSpec list" where
  "SCHEMA fp =
     [field_spec ''CustomerID'' ''Enter a unique Customer ID (e.g., C12345):'' (returns customer_id) None,
      field_spec ''Age'' (''Please enter your age (18'' @ en_dash @ ''75):'') (int_in_range 18 75) None,
      field_spec ''Income'' ''Annual income in INR (e.g., 450000):'' (returns (positive_float fp))
        (Some income_optional_if_unemployed_or_student),
      field_spec ''Location'' ''Your location (Urban/Suburban/Rural):''
        (returns (one_of [''Urban'', ''Suburban'', ''Rural''])) None,
      field_spec ''EmploymentStatus'' ''Employment status (Self-Employed/Salaried/Student/Unemployed):''
        (returns (one_of [''Self-Employed'', ''Salaried'', ''Student'', ''Unemployed''])) None,
      field_spec ''LoanAmount'' ''Requested loan amount in INR (must be > 0):'' (returns (positive_float fp)) None,
      field_spec ''TenureMonths'' (''Loan tenure in months (6'' @ en_dash @ ''360):'')
        (int_in_range 6 360) None,
      field_spec ''InterestRate'' (''Annual interest rate in % (1'' @ en_dash @ ''30):'')
        (returns (float_in_range fp (float_of_int fp 1) (float_of_int fp 30))) None,
      field_spec ''LoanType'' ''Type of loan (Personal/Auto/Home/Education/Business):''
        (returns (one_of [''Personal'', ''Auto'', ''Home'', ''Education'', ''Business''])) None,
      field_spec ''MissedPayments'' (''Number of missed payments (0'' @ en_dash @ ''24):'')
        (int_in_range 0 24) None,
      field_spec ''DelaysDays'' (''Total delay in days (0'' @ en_dash @ ''365):'') (int_in_range 0 365) None,
      field_spec ''PartialPayments'' (''Number of partial payments (0'' @ en_dash @ ''24):'')
        (int_in_range 0 24) (Some (partial_payments_if_missed fp)),
      field_spec ''InteractionAttempts'' (''Number of contact attempts made (0'' @ en_dash @ ''50):'')
        (int_in_range 0 50) None,
      field_spec ''SentimentScore'' ''Sentiment score from -1 to 1 (e.g., -0.3, 0.7):''
        (returns (float_in_range fp (float_of_int fp (- 1)) (float_of_int fp 1))) None,
      field_spec ''ResponseTimeHours'' (''Average response time in hours (0'' @ en_dash @ ''240):'')
        (returns (float_in_range fp (float_of_int fp 0) (float_of_int fp 240))) None,
      field_spec ''AppUsageFrequency'' (''App usage frequency score (0'' @ en_dash @ ''100):'')
        (returns (float_in_range fp (float_of_int fp 0) (float_of_int fp 100))) None,
      field_spec ''WebsiteVisits'' (''Number of visits to the loan portal (0'' @ en_dash @ ''500):'')
        (int_in_range 0 500) None,
      field_spec ''Complaints'' (''Number of complaints registered (0'' @ en_dash @ ''50):'')
        (int_in_range 0 50) None,
      field_spec ''Target'' ''Will you likely miss the next payment? (Yes/No):''
        (returns (one_of [''Yes'', ''No''])) None]"


section \<open>Tone styling\<close>

text \<open>The local \<^verbatim>\<open>tone\<close> of \<^verbatim>\<open>style_prompt\<close> is never read and is left out.\<close>

definition style_prompt :: "string \<Rightarrow> string \<Rightarrow> string" where
  "style_prompt text persona =
     (if persona = ''aggressive'' then ''I'' @ rsquo @ ''m here to help. '' @ text
      else if persona = ''evasive'' then ''To proceed, '' @ text
      else if persona = ''confused'' then ''No worries '' @ em_dash @ '' I'll guide you. '' @ text
      else ''Thanks! '' @ text)"

definition style_error :: "string \<Rightarrow> string \<Rightarrow> string" where
  "style_error msg persona =
     (if persona = ''aggressive'' then ''I get your concern. '' @ msg
      else if persona = ''evasive'' then ''Let'' @ rsquo @ ''s keep this moving. '' @ msg
      else if persona = ''confused'' then ''All good '' @ em_dash @ '' quick clarification: '' @ msg
      else msg)"


section \<open>The optional rewriting service\<close>

text \<open>
  What lies outside the program: the process environment, and the chat-completion service,
  a function of the system instruction and the user text (model, temperature and token
  limit are constants of the call) that gives the content of the first choice, or \<open>None\<close>
  when anything in the \<^verbatim>\<open>try\<close> block raises.
\<close>

record llm_env =
  environ :: "string \<Rightarrow> string option"
  chat_completion :: "string \<Rightarrow> string \<Rightarrow> string option"

text \<open>\<^verbatim>\<open>bool(os.environ.get("OPENAI_API_KEY"))\<close>: false when unset and when empty.\<close>

definition USE_LLM :: "llm_env \<Rightarrow> bool" where
  "USE_LLM w = (case environ w ''OPENAI_API_KEY'' of None \<Rightarrow> False | Some v \<Rightarrow> v \<noteq> [])"

text \<open>\<^verbatim>\<open>TONE_MAP.get(persona)\<close> inside an f-string: a missing key prints as \<^verbatim>\<open>None\<close>.\<close>

definition tone_text :: "string \<Rightarrow> string" where
  "tone_text persona = (case map_of TONE_MAP persona of None \<Rightarrow> ''None'' | Some t \<Rightarrow> t)"

text \<open>
  The result is the text returned together with the requests the call hands to the
  service, each the pair of system instruction and user text.
\<close>

definition maybe_llm_rewrite :: "llm_env \<Rightarrow> string \<Rightarrow> string \<Rightarrow> string \<Rightarrow> string \<times> (string \<times> string) list" where
  "maybe_llm_rewrite w text persona role =
     (if \<not> USE_LLM w then (text, [])
      else
        let sys = ''You adapt phrasing into a '' @ tone_text persona @ '' tone for concise '' @ role @ ''s.''
        in (case chat_completion w sys text of
              None \<Rightarrow> text
            | Some content \<Rightarrow> strip content,
            [(sys, text)]))"


section \<open>The conversation engine\<close>

text \<open>
  The console is a list of the lines still to be read and a list of what has been written:
  \<open>Prompted n t\<close> is \<^verbatim>\<open>input(t)\<close> issued for the field \<open>n\<close>, \<open>Printed t\<close> is
  \<^verbatim>\<open>print(t)\<close>.  Reading when no line is left raises \<^verbatim>\<open>EOFError\<close>, after the prompt
  has been written.  Every function gives what it wrote together with its result or the
  exception that ended it; nothing in the program catches what a validator raises.
\<close>

datatype event = Prompted string string | Printed string

definition should_ask :: "'f FieldSpec \<Rightarrow> 'f answers \<Rightarrow> error + bool" where
  "should_ask f st = (case depends_on f of None \<Rightarrow> Inr True | Some d \<Rightarrow> d st)"

definition prompt_suffix :: string where
  "prompt_suffix = CHR 0x0A # ''> ''"

text \<open>The \<^verbatim>\<open>while True\<close> of \<^verbatim>\<open>ask_field\<close>, one round for each line read.\<close>

fun ask_loop ::
  "llm_env \<Rightarrow> 'f FieldSpec \<Rightarrow> string \<Rightarrow> string \<Rightarrow> string list
     \<Rightarrow> event list \<times> (error + 'f pyval \<times> string \<times> string list)"
where
  "ask_loop w f prompt_text persona [] =
     ([Prompted (name f) (prompt_text @ prompt_suffix)], Inl EOFError)"
| "ask_loop w f prompt_text persona (line # rest) =
     (let user_input = strip line;
          detected = detect_persona user_input;
          turn_persona = (if detected = [] then persona else detected)
      in case validator f user_input of
           Inl e \<Rightarrow> ([Prompted (name f) (prompt_text @ prompt_suffix)], Inl e)
         | Inr (ok, val, err) \<Rightarrow>
             if ok then
               ([Prompted (name f) (prompt_text @ prompt_suffix)], Inr (val, turn_persona, rest))
             else
               let err_msg = fst (maybe_llm_rewrite w (style_error err turn_persona) turn_persona
                                    ''clarification'');
                   (out, res) = ask_loop w f prompt_text persona rest
               in (Prompted (name f) (prompt_text @ prompt_suffix) # Printed err_msg # out, res))"

definition ask_field ::
  "llm_env \<Rightarrow> 'f FieldSpec \<Rightarrow> string \<Rightarrow> 'f answers \<Rightarrow> string list
     \<Rightarrow> event list \<times> (error + 'f pyval \<times> string \<times> string list)"
where
  "ask_field w f persona st inputs =
     (let base_prompt = prompt f;
          prompt_text = fst (maybe_llm_rewrite w (style_prompt base_prompt persona) persona ''question'')
      in ask_loop w f prompt_text persona inputs)"

definition repayment_note :: string where
  "repayment_note = ''Noted. We'll consider a supportive repayment plan.''"

text \<open>The body of the \<^verbatim>\<open>for\<close> loop of \<^verbatim>\<open>main\<close>, for one field.\<close>

definition field_step ::
  "'f float_ops \<Rightarrow> llm_env \<Rightarrow> 'f FieldSpec \<Rightarrow> string \<Rightarrow> 'f answers \<Rightarrow> string list
     \<Rightarrow> event list \<times> (error + string \<times> 'f answers \<times> string list)"
where
  "field_step fp w f persona st inputs =
     (case should_ask f st of
        Inl e \<Rightarrow> ([], Inl e)
      | Inr ask \<Rightarrow>
          if \<not> ask then ([], Inr (persona, st, inputs))
          else
            (case ask_field w f persona st inputs of
               (out, Inl e) \<Rightarrow> (out, Inl e)
             | (out, Inr (val, persona', inputs')) \<Rightarrow>
                 let st' = dict_set st (name f) val in
                 if name f = ''MissedPayments'' then
                   (case gt_zero fp val of
                      Inl e \<Rightarrow> (out, Inl e)
                    | Inr positive \<Rightarrow>
                        if positive then
                          (out @ [Printed (fst (maybe_llm_rewrite w (style_prompt repayment_note persona') persona'
                                                  ''acknowledgement''))],
                           Inr (persona', st', inputs'))
                        else (out, Inr (persona', st', inputs')))
                 else (out, Inr (persona', st', inputs'))))"

fun main_loop ::
  "'f float_ops \<Rightarrow> llm_env \<Rightarrow> 'f FieldSpec list \<Rightarrow> string \<Rightarrow> 'f answers \<Rightarrow> string list
     \<Rightarrow> event list \<times> (error + string \<times> 'f answers \<times> string list)"
where
  "main_loop fp w [] persona st inputs = ([], Inr (persona, st, inputs))"
| "main_loop fp w (f # fs) persona st inputs =
     (case field_step fp w f persona st inputs of
        (out, Inl e) \<Rightarrow> (out, Inl e)
      | (out, Inr (persona', st', inputs')) \<Rightarrow>
          (let (out', res) = main_loop fp w fs persona' st' inputs' in (out @ out', res)))"

text \<open>
  \<^verbatim>\<open>str(v)\<close> of a stored value.  The integers a run stores lie within the bounds of
  their validators, far below the conversion limit.
\<close>

definition pyval_str :: "'f float_ops \<Rightarrow> 'f pyval \<Rightarrow> string" where
  "pyval_str fp v =
     (case v of VNone \<Rightarrow> ''None'' | VInt n \<Rightarrow> str_int n | VFloat x \<Rightarrow> float_str fp x | VStr s \<Rightarrow> s)"

definition greeting :: "event list" where
  "greeting =
     [Printed ''Welcome to the Persona-Aware Loan Intake Bot.'',
      Printed (''I'll ask a few questions to complete your application.'' @ [CHR 0x0A])]"

definition summary :: "'f float_ops \<Rightarrow> 'f answers \<Rightarrow> event list" where
  "summary fp st =
     Printed (CHR 0x0A # ''Thanks! Here is the information you provided:'')
     # map (\<lambda>(k, v). Printed ('' - '' @ k @ '': '' @ pyval_str fp v)) st
     @ [Printed (CHR 0x0A # ''If anything looks off, you can rerun me to update your details.''),
        Printed ''Goodbye!'']"

text \<open>
  \<^verbatim>\<open>main\<close>, on the lines the user will type: what is written, and the final answer set
  of a run that reaches its end.
\<close>

definition main :: "'f float_ops \<Rightarrow> llm_env \<Rightarrow> string list \<Rightarrow> event list \<times> (error + 'f answers)" where
  "main fp w inputs =
     (case main_loop fp w (SCHEMA fp) ''cooperative'' [] inputs of
        (out, Inl e) \<Rightarrow> (greeting @ out, Inl e)
      | (out, Inr (persona, st, rest)) \<Rightarrow> (greeting @ out @ summary fp st, Inr st))"

text \<open>
  An instance of the float operations on which the engine can be run: the floats that are
  whole numbers, read from their plain decimal spelling, where Python's \<^verbatim>\<open>float\<close> gives
  the same value; it reads no other spelling.
\<close>

definition whole_floats :: "int float_ops" where
  "whole_floats =
     \<lparr>float_of_str = (\<lambda>s. if fullmatch_int s then Some (int_value s) else None),
      float_of_int = (\<lambda>i. i),
      float_le = (\<lambda>a b. a \<le> b),
      float_lt = (\<lambda>a b. a < b),
      float_str = (\<lambda>i. str_int i @ ''.0'')\<rparr>"

text \<open>An environment without the key of the rewriting service.\<close>

definition no_llm :: llm_env where
  "no_llm = \<lparr>environ = (\<lambda>k. None), chat_completion = (\<lambda>sys text. None)\<rparr>"

text \<open>
  The three styled texts of the engine, as \<^verbatim>\<open>ask_field\<close> and \<^verbatim>\<open>main\<close> build them: the
  prompt of a field for the persona it is asked under, the error message of a rejected
  line, and the note after \<^verbatim>\<open>MissedPayments\<close>.
\<close>

abbreviation field_prompt :: "llm_env \<Rightarrow> 'f FieldSpec \<Rightarrow> string \<Rightarrow> event" where
  "field_prompt w f persona \<equiv>
     Prompted (name f)
       (fst (maybe_llm_rewrite w (style_prompt (prompt f) persona) persona ''question'') @ prompt_suffix)"

abbreviation error_line :: "llm_env \<Rightarrow> string \<Rightarrow> string \<Rightarrow> event" where
  "error_line w err persona \<equiv>
     Printed (fst (maybe_llm_rewrite w (style_error err persona) persona ''clarification''))"

abbreviation note_line :: "llm_env \<Rightarrow> string \<Rightarrow> event" where
  "note_line w persona \<equiv>
     Printed (fst (maybe_llm_rewrite w (style_prompt repayment_note persona) persona ''acknowledgement''))"


text \<open>
  A sample conversation, with an applicant who is a student and has missed two payments,
  and the answers it leaves.
\<close>

definition student_inputs :: "string list" where
  "student_inputs =
     [''C001'', ''30'', ''400000'', ''Urban'', ''Student'', ''50000'', ''24'', ''10'', ''Personal'',
      ''2'', ''0'', ''5'', ''3'', ''0'', ''12'', ''40'', ''20'', ''1'', ''No'']"

definition student_answers :: "int answers" where
  "student_answers =
     [(''CustomerID'', VStr ''C001''), (''Age'', VInt 30), (''Income'', VFloat 400000),
      (''Location'', VStr ''Urban''), (''EmploymentStatus'', VStr ''Student''),
      (''LoanAmount'', VFloat 50000), (''TenureMonths'', VInt 24), (''InterestRate'', VFloat 10),
      (''LoanType'', VStr ''Personal''), (''MissedPayments'', VInt 2), (''DelaysDays'', VInt 0),
      (''PartialPayments'', VInt 5), (''InteractionAttempts'', VInt 3), (''SentimentScore'', VFloat 0),
      (''ResponseTimeHours'', VFloat 12), (''AppUsageFrequency'', VFloat 40),
      (''WebsiteVisits'', VInt 20), (''Complaints'', VInt 1), (''Target'', VStr ''No'')]"

text \<open>
  A well-formed outcome is either an acceptance with a value and no error text, or a
  rejection with an error text and no value.
\<close>

definition well_formed :: "'f outcome \<Rightarrow> bool" where
  "well_formed r = (case r of (ok, v, err) \<Rightarrow> (ok \<and> v \<noteq> VNone \<and> err = []) \<or> (\<not> ok \<and> v = VNone \<and> err \<noteq> []))"


section \<open>Facts about the text primitives\<close>

lemma contains_iff_sublist: "contains t w \<longleftrightarrow> sublist w t"
  by (induction t) (auto simp: sublist_Cons_right)

lemma digit_char_is_digit: "d < 10 \<Longrightarrow> is_digit (digit_char d)"
  by (simp add: is_digit_def digit_char_def)

lemma digit_val_digit_char: "d < 10 \<Longrightarrow> digit_val (digit_char d) = d"
  by (simp add: digit_val_def digit_char_def)

lemma str_nat_digits: "digits1 (str_nat n)"
proof (induction n rule: str_nat.induct)
  case (1 n)
  show ?case
  proof (cases "n < 10")
    case True
    then show ?thesis
      by (subst str_nat.simps) (simp add: digits1_def digit_char_is_digit)
  next
    case False
    with 1 have "digits1 (str_nat (n div 10))" by simp
    with False show ?thesis
      by (subst str_nat.simps) (simp add: digits1_def digit_char_is_digit)
  qed
qed

lemma nat_of_digits_snoc: "nat_of_digits (ds @ [c]) = 10 * nat_of_digits ds + digit_val c"
  by (simp add: nat_of_digits_def)

lemma nat_of_digits_str_nat: "nat_of_digits (str_nat n) = n"
proof (induction n rule: str_nat.induct)
  case (1 n)
  show ?case
  proof (cases "n < 10")
    case True
    then show ?thesis
      by (subst str_nat.simps) (simp add: nat_of_digits_def digit_val_digit_char)
  next
    case False
    with 1 have "nat_of_digits (str_nat (n div 10)) = n div 10" by simp
    with False show ?thesis
      by (subst str_nat.simps) (simp add: nat_of_digits_snoc digit_val_digit_char)
  qed
qed

lemma is_digit_not_minus: "is_digit c \<Longrightarrow> c \<noteq> CHR ''-''"
  by (auto simp: is_digit_def)

lemma is_digit_not_space: "is_digit c \<Longrightarrow> \<not> is_space c"
  by (auto simp: is_digit_def is_space_def)

lemma fullmatch_int_str_int: "fullmatch_int (str_int i)"
proof (cases "i < 0")
  case True
  then show ?thesis by (simp add: fullmatch_int_def str_int_def str_nat_digits)
next
  case False
  obtain c cs where cs: "str_nat (nat i) = c # cs"
    using str_nat_digits [of "nat i"] by (cases "str_nat (nat i)") (auto simp: digits1_def)
  moreover have "c \<noteq> CHR ''-''"
    using str_nat_digits [of "nat i"] cs by (auto simp: digits1_def is_digit_not_minus)
  ultimately show ?thesis
    using False str_nat_digits [of "nat i"] by (simp add: fullmatch_int_def str_int_def)
qed

lemma int_value_str_int: "int_value (str_int i) = i"
proof (cases "i < 0")
  case True
  then show ?thesis by (simp add: int_value_def str_int_def nat_of_digits_str_nat)
next
  case False
  obtain c cs where cs: "str_nat (nat i) = c # cs"
    using str_nat_digits [of "nat i"] by (cases "str_nat (nat i)") (auto simp: digits1_def)
  moreover have "c \<noteq> CHR ''-''"
    using str_nat_digits [of "nat i"] cs by (auto simp: digits1_def is_digit_not_minus)
  moreover have "nat_of_digits (c # cs) = nat i"
    using nat_of_digits_str_nat [of "nat i"] cs by simp
  ultimately show ?thesis
    using False by (simp add: int_value_def str_int_def)
qed

lemma dropWhile_none: "\<forall>c\<in>set s. \<not> P c \<Longrightarrow> dropWhile P s = s"
  by (cases s) auto

lemma strip_no_space: "\<forall>c\<in>set s. \<not> is_space c \<Longrightarrow> strip s = s"
  by (simp add: strip_def dropWhile_none)

lemma strip_str_int: "strip (str_int i) = str_int i"
proof (rule strip_no_space)
  have "\<forall>c\<in>set (str_nat (nat (- i))). \<not> is_space c" "\<forall>c\<in>set (str_nat (nat i)). \<not> is_space c"
    using str_nat_digits [of "nat (- i)"] str_nat_digits [of "nat i"]
    by (auto simp: digits1_def list_all_iff is_digit_not_space)
  then show "\<forall>c\<in>set (str_int i). \<not> is_space c"
    by (auto simp: str_int_def is_space_def)
qed

lemma index_less: "v \<in> set xs \<Longrightarrow> index xs v < length xs"
  by (induction xs) (auto simp: index_def)

lemma nth_index: "v \<in> set xs \<Longrightarrow> xs ! index xs v = v"
  by (induction xs) (auto simp: index_def)



section \<open>The validators\<close>

lemma siblings_well_formed:
  "(int_in_range min_v max_v x :: error + 'f outcome) = Inr r \<Longrightarrow> well_formed r"
  "well_formed (float_in_range fp lo hi x)"
  "well_formed (positive_float fp x)"
  "well_formed (one_of options x :: 'f outcome)"
  by (auto simp: well_formed_def int_in_range_def float_in_range_def positive_float_def one_of_def Let_def
           split: option.splits sum.splits if_splits)

text \<open>
  C3, at the validator of \<^verbatim>\<open>CustomerID\<close>: the lambda returns the trimmed text and
  the hint in every case, so an accepted identifier comes with the error text and a
  rejected one with a value.  The other validators of the schema are well formed
  (\<open>siblings_well_formed\<close>).
\<close>

theorem customer_id_value_and_error:
  "(customer_id ''C12345'' :: 'f outcome)
     = (True, VStr ''C12345'', ''ID should start with a letter and be 3'' @ en_dash @ ''16 chars.'')
   \<and> (customer_id ''7'' :: 'f outcome)
     = (False, VStr ''7'', ''ID should start with a letter and be 3'' @ en_dash @ ''16 chars.'')"
  by (simp add: customer_id_def fullmatch_id_def strip_def is_space_def is_alpha_def
      is_upper_def is_lower_def is_word_def is_digit_def)

lemma int_in_range_accept:
  "(int_in_range min_v max_v x :: error + 'f outcome) = Inr (True, v, e) \<Longrightarrow>
   \<exists>n. v = VInt n \<and> min_v \<le> n \<and> n \<le> max_v"
  by (auto simp: int_in_range_def Let_def split: if_splits sum.splits)

lemma ones_plain: "strip (replicate n (CHR ''1'')) = replicate n (CHR ''1'')"
  by (rule strip_no_space) (simp add: is_space_def)

lemma ones_match: "fullmatch_int (replicate (Suc n) (CHR ''1''))"
  by (simp add: fullmatch_int_def digits1_def list_all_iff is_digit_def)

lemma ones_count: "digit_count (replicate n (CHR ''1'')) = n"
  by (cases n) (simp_all add: digit_count_def)

lemma ones_value: "n \<le> nat_of_digits (replicate n (CHR ''1''))"
proof (induction n)
  case 0
  then show ?case by simp
next
  case (Suc n)
  have "replicate (Suc n) (CHR ''1'') = replicate n (CHR ''1'') @ [CHR ''1'']"
    by (simp add: replicate_append_same)
  then have "nat_of_digits (replicate (Suc n) (CHR ''1'')) = 10 * nat_of_digits (replicate n (CHR ''1'')) + 1"
    by (simp only: nat_of_digits_snoc) (simp add: digit_val_def)
  with Suc show ?case by simp
qed

lemma ones_int_value: "int n \<le> int_value (replicate n (CHR ''1''))"
  using ones_value [of n] by (cases n) (simp_all add: int_value_def)

lemma int_in_range_long:
  "int_max_str_digits < Suc n \<Longrightarrow>
   (int_in_range min_v max_v (replicate (Suc n) (CHR ''1'')) :: error + 'f outcome) = Inl ValueError"
  by (simp add: int_in_range_def ones_plain ones_match py_int_def ones_count del: replicate_Suc)

lemma bounds_18_75: "bounds_text 18 75 = Inr ''18 and 75''"
  by code_simp

text \<open>
  C5, where the program leaves it: a line of 4301 digits matches the pattern, and
  \<^verbatim>\<open>int(x)\<close> raises \<^verbatim>\<open>ValueError\<close> on it, which \<^verbatim>\<open>int_in_range\<close> does not catch;
  no rejection is returned.  A line of 4300 digits is still read, and rejected as out of
  range.
\<close>

theorem int_in_range_raises_on_long_number:
  "fullmatch_int (strip (replicate 4301 (CHR ''1'')))
   \<and> (int_in_range 18 75 (replicate 4301 (CHR ''1'')) :: error + 'f outcome) = Inl ValueError
   \<and> (int_in_range 18 75 (replicate 4300 (CHR ''1'')) :: error + 'f outcome)
       = Inr (False, VNone, ''Value must be between 18 and 75.'')"
proof (intro conjI)
  have n: "(4301::nat) = Suc 4300" "(4300::nat) = Suc 4299" by simp_all
  show "fullmatch_int (strip (replicate 4301 (CHR ''1'')))"
    by (simp only: ones_plain n ones_match)
  show "(int_in_range 18 75 (replicate 4301 (CHR ''1'')) :: error + 'f outcome) = Inl ValueError"
    by (simp only: n(1)) (rule int_in_range_long, simp add: int_max_str_digits_def)
  have "\<not> int_value (replicate 4300 (CHR ''1'')) \<le> 75"
    using ones_int_value [of 4300] by simp
  moreover have "fullmatch_int (replicate 4300 (CHR ''1''))"
    by (simp only: n(2) ones_match)
  ultimately
  show "(int_in_range 18 75 (replicate 4300 (CHR ''1'')) :: error + 'f outcome)
       = Inr (False, VNone, ''Value must be between 18 and 75.'')"
    by (simp add: int_in_range_def ones_plain py_int_def ones_count int_max_str_digits_def bounds_18_75)
qed

lemma one_of_accept:
  assumes "lower (strip x) \<in> set (map lower options)"
  shows "\<exists>y. (one_of options x :: 'f outcome) = (True, VStr y, []) \<and> y \<in> set options
             \<and> lower y = lower (strip x)"
proof -
  let ?i = "index (map lower options) (lower (strip x))"
  have i: "?i < length options"
    using index_less [OF assms] by simp
  have "map lower options ! ?i = lower (strip x)"
    using nth_index [OF assms] .
  with i have "lower (options ! ?i) = lower (strip x)" by simp
  moreover have "options ! ?i \<in> set options" using i by simp
  moreover have "(one_of options x :: 'f outcome) = (True, VStr (options ! ?i), [])"
    using assms by (simp add: one_of_def Let_def)
  ultimately show ?thesis by blast
qed

lemma one_of_canonical:
  assumes "opt \<in> set options" and "distinct (map lower options)" and "lower (strip x) = lower opt"
  shows "(one_of options x :: 'f outcome) = (True, VStr opt, [])"
proof -
  let ?i = "index (map lower options) (lower (strip x))"
  have m: "lower (strip x) \<in> set (map lower options)" using assms(1,3) by auto
  have i: "?i < length (map lower options)" using index_less [OF m] .
  obtain j where j: "j < length options" "options ! j = opt"
    using assms(1) by (auto simp: in_set_conv_nth)
  have "map lower options ! ?i = map lower options ! j"
    using nth_index [OF m] j assms(3) by simp
  moreover have "j < length (map lower options)" using j by simp
  ultimately have "?i = j"
    using nth_eq_iff_index_eq [OF assms(2) i] by blast
  with m j show ?thesis by (simp add: one_of_def Let_def)
qed

text \<open>
  C6: the choice validator compares the trimmed input with the options in lower case.  An
  accepted input yields an element of the option list that equals it in lower case, and
  the option itself when no two options agree in lower case; two inputs that agree in
  lower case have the same outcome; a rejected input gets the message that joins all the
  options as they are written; and \<^verbatim>\<open>urban\<close> yields \<^verbatim>\<open>Urban\<close>.
\<close>

theorem one_of_case_insensitive:
  "(lower (strip x) \<in> set (map lower options) \<longrightarrow>
      (\<exists>y. (one_of options x :: 'f outcome) = (True, VStr y, []) \<and> y \<in> set options
            \<and> lower y = lower (strip x)))
   \<and> (opt \<in> set options \<and> distinct (map lower options) \<and> lower (strip x) = lower opt \<longrightarrow>
        (one_of options x :: 'f outcome) = (True, VStr opt, []))
   \<and> (lower (strip x) = lower (strip x') \<longrightarrow>
        (one_of options x :: 'f outcome) = one_of options x')
   \<and> (lower (strip x) \<notin> set (map lower options) \<longrightarrow>
        (one_of options x :: 'f outcome) =
          (False, VNone, ''Please choose one of: '' @ join '', '' options @ ''.''))
   \<and> (one_of [''Urban'', ''Suburban'', ''Rural''] ''urban'' :: 'f outcome) = (True, VStr ''Urban'', [])"
proof -
  have "(one_of [''Urban'', ''Suburban'', ''Rural''] ''urban'' :: 'f outcome) = (True, VStr ''Urban'', [])"
  proof (rule one_of_canonical)
    show "distinct (map lower [''Urban'', ''Suburban'', ''Rural''])" by code_simp
    show "lower (strip ''urban'') = lower ''Urban''" by code_simp
  qed simp
  moreover have "lower (strip x) = lower (strip x') \<longrightarrow>
        (one_of options x :: 'f outcome) = one_of options x'"
    by (simp add: one_of_def Let_def)
  moreover have "lower (strip x) \<notin> set (map lower options) \<longrightarrow>
        (one_of options x :: 'f outcome) =
          (False, VNone, ''Please choose one of: '' @ join '', '' options @ ''.'')"
    by (simp add: one_of_def Let_def)
  ultimately show ?thesis
    using one_of_accept [of x options] one_of_canonical [of opt options x] by blast
qed

theorem one_of_case_insensitive_witness:
  "lower (strip ''SUBURBAN '') \<in> set (map lower [''Urban'', ''Suburban'', ''Rural''])
   \<and> ''Suburban'' \<in> set [''Urban'', ''Suburban'', ''Rural'']
   \<and> distinct (map lower [''Urban'', ''Suburban'', ''Rural''])
   \<and> lower (strip ''SUBURBAN '') = lower ''Suburban''
   \<and> lower (strip ''SUBURBAN '') = lower (strip ''suburban'')
   \<and> (one_of [''Urban'', ''Suburban'', ''Rural''] ''SUBURBAN '' :: unit outcome) = (True, VStr ''Suburban'', [])
   \<and> (one_of [''Urban'', ''Suburban'', ''Rural''] ''SUBURBAN '' :: unit outcome)
       = one_of [''Urban'', ''Suburban'', ''Rural''] ''suburban''
   \<and> lower (strip ''city'') \<notin> set (map lower [''Urban'', ''Suburban'', ''Rural''])
   \<and> (one_of [''Urban'', ''Suburban'', ''Rural''] ''city'' :: unit outcome)
       = (False, VNone, ''Please choose one of: Urban, Suburban, Rural.'')"
proof -
  have e: "lower (strip ''SUBURBAN '') = ''suburban''" "lower ''Suburban'' = ''suburban''"
    "lower (strip ''suburban'') = ''suburban''" "lower (strip ''city'') = ''city''"
    "lower ''Urban'' = ''urban''" "lower ''Rural'' = ''rural''"
    "map lower [''Urban'', ''Suburban'', ''Rural''] = [''urban'', ''suburban'', ''rural'']"
    by code_simp+
  show ?thesis
    using one_of_case_insensitive [of "''SUBURBAN ''" "[''Urban'', ''Suburban'', ''Rural'']" "''Suburban''" "''suburban''", where 'f = unit]
      one_of_case_insensitive [of "''city''" "[''Urban'', ''Suburban'', ''Rural'']" "''Suburban''" "''suburban''", where 'f = unit]
    by (auto simp: e)
qed


section \<open>The rewriting adapter\<close>

text \<open>
  C8: when the environment has no \<^verbatim>\<open>OPENAI_API_KEY\<close>, the adapter returns its text
  unchanged and hands no request to the service, whatever the text, persona and role.
\<close>

theorem rewrite_identity_when_disabled:
  "environ w ''OPENAI_API_KEY'' = None \<Longrightarrow> maybe_llm_rewrite w text persona role = (text, [])"
  by (simp add: maybe_llm_rewrite_def USE_LLM_def)

theorem rewrite_identity_when_disabled_witness:
  "environ no_llm ''OPENAI_API_KEY'' = None
   \<and> maybe_llm_rewrite no_llm ''Thanks! Your location (Urban/Suburban/Rural):'' ''cooperative'' ''question''
       = (''Thanks! Your location (Urban/Suburban/Rural):'', [])"
proof -
  have h: "environ no_llm ''OPENAI_API_KEY'' = None" by (simp add: no_llm_def)
  show ?thesis
    using h rewrite_identity_when_disabled [OF h] by simp
qed



section \<open>Facts about the persona detector\<close>

lemma sublist_single: "sublist [c] t \<longleftrightarrow> c \<in> set t"
  by (induction t) (auto simp: sublist_Cons_right)

lemma dropWhile_keeps:
  "w \<noteq> [] \<Longrightarrow> \<not> P (hd w) \<Longrightarrow> \<exists>a'. dropWhile P (a @ w @ b) = a' @ w @ b"
proof (induction a)
  case Nil
  then have "dropWhile P (w @ b) = w @ b" by (cases w) auto
  then show ?case by (intro exI [of _ "[]"]) simp
next
  case (Cons x a)
  then obtain a' where a': "dropWhile P (a @ w @ b) = a' @ w @ b" by blast
  show ?case
  proof (cases "P x")
    case True
    with a' show ?thesis by simp
  next
    case False
    then show ?thesis by (intro exI [of _ "x # a"]) simp
  qed
qed

lemma sublist_strip:
  assumes "sublist w s" and "w \<noteq> []" and "\<not> is_space (hd w)" and "\<not> is_space (last w)"
  shows "sublist w (strip s)"
proof -
  obtain a b where s: "s = a @ w @ b" using assms(1) by (auto simp: sublist_def)
  obtain a' where a': "dropWhile is_space s = a' @ w @ b"
    using dropWhile_keeps [of w is_space a b] assms(2,3) s by blast
  have "rev w \<noteq> []" "\<not> is_space (hd (rev w))"
    using assms(2,4) by (simp_all add: hd_rev)
  then obtain b' where "dropWhile is_space (rev b @ rev w @ rev a') = b' @ rev w @ rev a'"
    using dropWhile_keeps [of "rev w" is_space "rev b" "rev a'"] by blast
  with a' have "strip s = a' @ w @ rev b'" by (simp add: strip_def)
  then show ?thesis by (auto simp: sublist_def)
qed

lemma sublist_lower: "sublist w u \<Longrightarrow> sublist (lower w) (lower u)"
  unfolding lower_def by (rule map_mono_sublist)

lemma negative_words_plain:
  "\<forall>w\<in>set NEGATIVE_WORDS. lower w = w \<and> w \<noteq> [] \<and> \<not> is_space (hd w) \<and> \<not> is_space (last w)"
  by (simp add: NEGATIVE_WORDS_def lower_def lower_char_def is_upper_def is_space_def)

lemma mark_kept:
  assumes "c \<in> set u" and "\<not> is_upper c" and "\<not> is_space c"
  shows "contains (strip (lower u)) [c]"
proof -
  have "sublist [c] u" using assms(1) by (simp add: sublist_single)
  then have "sublist (lower [c]) (lower u)" by (rule sublist_lower)
  moreover have "lower [c] = [c]" using assms(2) by (simp add: lower_def lower_char_def)
  ultimately have "sublist [c] (strip (lower u))"
    using assms(3) by (intro sublist_strip) simp_all
  then show ?thesis by (simp add: contains_iff_sublist)
qed

lemma negative_word_kept:
  assumes "w \<in> set NEGATIVE_WORDS" and "sublist w u \<or> sublist w (lower u)"
  shows "contains (strip (lower u)) w"
proof -
  have p: "lower w = w" "w \<noteq> []" "\<not> is_space (hd w)" "\<not> is_space (last w)"
    using negative_words_plain assms(1) by blast+
  have "sublist w (lower u)"
    using assms(2) sublist_lower [of w u] p(1) by auto
  then have "sublist w (strip (lower u))"
    using p by (intro sublist_strip)
  then show ?thesis by (simp add: contains_iff_sublist)
qed

lemma raw_aggressive:
  assumes "(\<exists>w\<in>set NEGATIVE_WORDS. sublist w u \<or> sublist w (lower u)) \<or> CHR ''!'' \<in> set u"
  shows "is_aggressive (strip (lower u))"
  using assms negative_word_kept [of _ u] mark_kept [of "CHR ''!''" u]
  by (auto simp: is_aggressive_def list_ex_iff is_upper_def is_space_def)

lemma raw_question:
  assumes "CHR ''?'' \<in> set u"
  shows "is_confused (strip (lower u))"
  using mark_kept [OF assms] by (simp add: is_confused_def CONFUSED_CUES_def is_upper_def is_space_def)

text \<open>
  C7: an utterance that holds a negative word (as typed or in lower case) or an
  exclamation mark, and a question mark as well, meets the cue of the confused test and
  is classified aggressive all the same.  The tests are tried in the order aggressive,
  evasive, confused, and cooperative is what remains.
\<close>

theorem aggressive_precedes_confused:
  "(((\<exists>w\<in>set NEGATIVE_WORDS. sublist w u \<or> sublist w (lower u)) \<or> CHR ''!'' \<in> set u)
      \<and> CHR ''?'' \<in> set u \<longrightarrow>
      is_confused (strip (lower u)) \<and> detect_persona u = ''aggressive''
      \<and> detect_persona u \<noteq> ''confused'')
   \<and> (is_aggressive (strip (lower u)) \<longrightarrow> detect_persona u = ''aggressive'')
   \<and> (\<not> is_aggressive (strip (lower u)) \<and> is_evasive (strip (lower u)) \<longrightarrow>
        detect_persona u = ''evasive'')
   \<and> (\<not> is_aggressive (strip (lower u)) \<and> \<not> is_evasive (strip (lower u))
        \<and> is_confused (strip (lower u)) \<longrightarrow> detect_persona u = ''confused'')
   \<and> (\<not> is_aggressive (strip (lower u)) \<and> \<not> is_evasive (strip (lower u))
        \<and> \<not> is_confused (strip (lower u)) \<longrightarrow> detect_persona u = ''cooperative'')"
  using raw_aggressive [of u] raw_question [of u]
  by (simp add: detect_persona_def Let_def)

theorem aggressive_precedes_confused_witness:
  "(\<exists>w\<in>set NEGATIVE_WORDS. sublist w ''I HATE this, what?'' \<or> sublist w (lower ''I HATE this, what?''))
   \<and> CHR ''?'' \<in> set ''I HATE this, what?''
   \<and> is_confused (strip (lower ''I HATE this, what?''))
   \<and> is_aggressive (strip (lower ''I HATE this, what?''))
   \<and> detect_persona ''I HATE this, what?'' = ''aggressive''
   \<and> \<not> is_aggressive (strip (lower ''Maybe later?'')) \<and> is_evasive (strip (lower ''Maybe later?''))
   \<and> is_confused (strip (lower ''Maybe later?''))
   \<and> detect_persona ''Maybe later?'' = ''evasive''
   \<and> \<not> is_aggressive (strip (lower ''Why?'')) \<and> \<not> is_evasive (strip (lower ''Why?''))
   \<and> is_confused (strip (lower ''Why?''))
   \<and> detect_persona ''Why?'' = ''confused''
   \<and> \<not> is_aggressive (strip (lower ''42'')) \<and> \<not> is_evasive (strip (lower ''42''))
   \<and> \<not> is_confused (strip (lower ''42''))
   \<and> detect_persona ''42'' = ''cooperative''"
proof -
  have e: "\<exists>w\<in>set NEGATIVE_WORDS. sublist w ''I HATE this, what?'' \<or> sublist w (lower ''I HATE this, what?'')"
    "CHR ''?'' \<in> set ''I HATE this, what?''"
    "is_aggressive (strip (lower ''I HATE this, what?''))"
    "\<not> is_aggressive (strip (lower ''Maybe later?''))" "is_evasive (strip (lower ''Maybe later?''))"
    "is_confused (strip (lower ''Maybe later?''))"
    "\<not> is_aggressive (strip (lower ''Why?''))" "\<not> is_evasive (strip (lower ''Why?''))"
    "is_confused (strip (lower ''Why?''))"
    "\<not> is_aggressive (strip (lower ''42''))" "\<not> is_evasive (strip (lower ''42''))"
    "\<not> is_confused (strip (lower ''42''))"
    by code_simp+
  show ?thesis
    using aggressive_precedes_confused [of "''I HATE this, what?''"]
      aggressive_precedes_confused [of "''Maybe later?''"]
      aggressive_precedes_confused [of "''Why?''"]
      aggressive_precedes_confused [of "''42''"] e
    by simp
qed

text \<open>
  C10: when the lower-cased, trimmed text holds no negative word, no exclamation mark and
  no evasion pattern, and \<^verbatim>\<open>how\<close> occurs in it at any place, inside a longer word
  too, the utterance is classified confused.
\<close>

theorem how_inside_word_confused:
  "(\<forall>w\<in>set NEGATIVE_WORDS. \<not> sublist w (strip (lower u)))
   \<and> CHR ''!'' \<notin> set (strip (lower u))
   \<and> (\<forall>p\<in>set EVADE_PATTERNS. \<not> re_search_b p (strip (lower u)))
   \<and> sublist ''how'' (strip (lower u))
   \<longrightarrow> detect_persona u = ''confused''"
  by (auto simp: detect_persona_def Let_def is_aggressive_def is_evasive_def is_confused_def
        list_ex_iff contains_iff_sublist sublist_single CONFUSED_CUES_def)

theorem how_inside_word_confused_witness:
  "\<not> (\<exists>w\<in>set NEGATIVE_WORDS. sublist w (strip (lower ''The shower is broken'')))
   \<and> CHR ''!'' \<notin> set (strip (lower ''The shower is broken''))
   \<and> \<not> (\<exists>p\<in>set EVADE_PATTERNS. re_search_b p (strip (lower ''The shower is broken'')))
   \<and> sublist ''how'' (strip (lower ''The shower is broken''))
   \<and> detect_persona ''The shower is broken'' = ''confused''
   \<and> \<not> (\<exists>w\<in>set NEGATIVE_WORDS. sublist w (strip (lower ''showed'')))
   \<and> CHR ''!'' \<notin> set (strip (lower ''showed''))
   \<and> \<not> (\<exists>p\<in>set EVADE_PATTERNS. re_search_b p (strip (lower ''showed'')))
   \<and> sublist ''how'' (strip (lower ''showed''))
   \<and> detect_persona ''showed'' = ''confused''"
proof -
  have e: "\<forall>w\<in>set NEGATIVE_WORDS. \<not> sublist w (strip (lower ''The shower is broken''))"
    "CHR ''!'' \<notin> set (strip (lower ''The shower is broken''))"
    "\<forall>p\<in>set EVADE_PATTERNS. \<not> re_search_b p (strip (lower ''The shower is broken''))"
    "sublist ''how'' (strip (lower ''The shower is broken''))"
    "\<forall>w\<in>set NEGATIVE_WORDS. \<not> sublist w (strip (lower ''showed''))"
    "CHR ''!'' \<notin> set (strip (lower ''showed''))"
    "\<forall>p\<in>set EVADE_PATTERNS. \<not> re_search_b p (strip (lower ''showed''))"
    "sublist ''how'' (strip (lower ''showed''))"
    by code_simp+
  show ?thesis
    using how_inside_word_confused [of "''The shower is broken''"]
      how_inside_word_confused [of "''showed''"] e
    by simp
qed



section \<open>Facts about the engine\<close>

lemma detect_persona_nonempty: "detect_persona u \<noteq> []"
  by (simp add: detect_persona_def Let_def)

lemma ask_loop_accept:
  "validator f (strip line) = Inr (True, v, e) \<Longrightarrow>
   ask_loop w f p persona (line # rest) =
     ([Prompted (name f) (p @ prompt_suffix)], Inr (v, detect_persona (strip line), rest))"
  by (simp add: Let_def detect_persona_nonempty)

lemma ask_loop_reject:
  "validator f (strip line) = Inr (False, v, e) \<Longrightarrow>
   ask_loop w f p persona (line # rest) =
     (Prompted (name f) (p @ prompt_suffix)
      # Printed (fst (maybe_llm_rewrite w (style_error e (detect_persona (strip line)))
                        (detect_persona (strip line)) ''clarification''))
      # fst (ask_loop w f p persona rest),
      snd (ask_loop w f p persona rest))"
  by (simp add: Let_def detect_persona_nonempty split: prod.splits)

lemma ask_loop_raise:
  "validator f (strip line) = Inl e \<Longrightarrow>
   ask_loop w f p persona (line # rest) = ([Prompted (name f) (p @ prompt_suffix)], Inl e)"
  by (simp add: Let_def)

lemma validator_cases:
  obtains (raise) e where "validator f u = Inl e"
  | (accept) v e where "validator f u = Inr (True, v, e)"
  | (reject) v e where "validator f u = Inr (False, v, e)"
proof (cases "validator f u")
  case (Inl e)
  then show ?thesis by (rule raise)
next
  case (Inr r)
  obtain ok v e where "r = (ok, v, e)" by (cases r) auto
  with Inr show ?thesis using accept reject by (cases ok) auto
qed

lemma ask_loop_first:
  "\<exists>out. fst (ask_loop w f p persona inputs) = Prompted (name f) (p @ prompt_suffix) # out"
proof (cases inputs)
  case Nil
  then show ?thesis by simp
next
  case (Cons line rest)
  show ?thesis
  proof (cases rule: validator_cases [of f "strip line"])
    case (raise e)
    with Cons ask_loop_raise [OF raise, of w p persona rest] show ?thesis
      by (simp del: ask_loop.simps)
  next
    case (accept v e)
    with Cons ask_loop_accept [OF accept, of w p persona rest] show ?thesis
      by (simp del: ask_loop.simps)
  next
    case (reject v e)
    with Cons ask_loop_reject [OF reject, of w p persona rest] show ?thesis
      by (simp del: ask_loop.simps)
  qed
qed

lemma ask_loop_result:
  "ask_loop w f p persona inputs = (out, Inr (v, p', rest)) \<Longrightarrow>
   \<exists>line e. line \<in> set inputs \<and> validator f (strip line) = Inr (True, v, e)
            \<and> p' = detect_persona (strip line)"
proof (induction inputs arbitrary: out)
  case Nil
  then show ?case by simp
next
  case (Cons line inputs)
  show ?case
  proof (cases rule: validator_cases [of f "strip line"])
    case (raise e)
    with Cons.prems ask_loop_raise [OF raise, of w p persona inputs] show ?thesis
      by (simp del: ask_loop.simps)
  next
    case (accept v0 e)
    with Cons.prems ask_loop_accept [OF accept, of w p persona inputs] show ?thesis
      by (auto simp del: ask_loop.simps)
  next
    case (reject v0 e)
    with Cons.prems ask_loop_reject [OF reject, of w p persona inputs]
    have "snd (ask_loop w f p persona inputs) = Inr (v, p', rest)"
      by (simp del: ask_loop.simps)
    then have "ask_loop w f p persona inputs = (fst (ask_loop w f p persona inputs), Inr (v, p', rest))"
      by (metis prod.collapse)
    from Cons.IH [OF this] show ?thesis by auto
  qed
qed

lemma ask_loop_prompts:
  "Prompted n t \<in> set (fst (ask_loop w f p persona inputs)) \<Longrightarrow> n = name f"
proof (induction inputs)
  case Nil
  then show ?case by simp
next
  case (Cons line rest)
  show ?case
  proof (cases rule: validator_cases [of f "strip line"])
    case (raise e)
    with Cons ask_loop_raise [OF raise, of w p persona rest] show ?thesis
      by (simp del: ask_loop.simps)
  next
    case (accept v e)
    with Cons ask_loop_accept [OF accept, of w p persona rest] show ?thesis
      by (simp del: ask_loop.simps)
  next
    case (reject v e)
    with Cons ask_loop_reject [OF reject, of w p persona rest] show ?thesis
      by (auto simp del: ask_loop.simps)
  qed
qed

lemma dict_set_new: "k \<notin> set (keys st) \<Longrightarrow> dict_set st k v = st @ [(k, v)]"
  by (simp add: dict_set_def)

lemma field_step_not_asked:
  "should_ask f st = Inr False \<Longrightarrow>
   field_step fp w f persona st inputs = ([], Inr (persona, st, inputs))"
  by (simp add: field_step_def)

lemma field_step_raised:
  "should_ask f st = Inl e \<Longrightarrow> field_step fp w f persona st inputs = ([], Inl e)"
  by (simp add: field_step_def)

lemma field_step_asked_Inl:
  "should_ask f st = Inr True \<Longrightarrow> ask_field w f persona st inputs = (o1, Inl e) \<Longrightarrow>
   field_step fp w f persona st inputs = (o1, Inl e)"
  by (simp add: field_step_def)

lemma field_step_asked_Inr:
  assumes "should_ask f st = Inr True" and "ask_field w f persona st inputs = (o1, Inr (v, p1, i1))"
  shows "field_step fp w f persona st inputs = (o1, Inr (p1, dict_set st (name f) v, i1))
       \<or> (\<exists>t. field_step fp w f persona st inputs
                 = (o1 @ [Printed t], Inr (p1, dict_set st (name f) v, i1)))
       \<or> (\<exists>e. field_step fp w f persona st inputs = (o1, Inl e))"
  using assms by (simp add: field_step_def Let_def split: sum.splits)

lemma field_step_cases:
  assumes "field_step fp w f persona st inputs = (out, Inr (p', st', inputs'))"
  shows "(should_ask f st = Inr False \<and> st' = st \<and> out = [] \<and> p' = persona \<and> inputs' = inputs)
       \<or> (should_ask f st = Inr True
          \<and> (\<exists>line v e. line \<in> set inputs \<and> validator f (strip line) = Inr (True, v, e)
                \<and> st' = dict_set st (name f) v \<and> p' = detect_persona (strip line))
          \<and> (\<exists>t. Prompted (name f) t \<in> set out))"
proof (cases "should_ask f st")
  case (Inl e)
  with assms field_step_raised [OF Inl] show ?thesis by simp
next
  case (Inr ask)
  show ?thesis
  proof (cases ask)
    case False
    with Inr assms field_step_not_asked [of f st fp w persona inputs] show ?thesis by simp
  next
    case True
    with Inr have sa: "should_ask f st = Inr True" by simp
    obtain o1 r1 where a: "ask_field w f persona st inputs = (o1, r1)"
      by (cases "ask_field w f persona st inputs") auto
    show ?thesis
    proof (cases r1)
      case (Inl e)
      with assms field_step_asked_Inl [OF sa] a show ?thesis by simp
    next
      case (Inr r)
      obtain v p1 i1 where r: "r = (v, p1, i1)" by (cases r) auto
      from field_step_asked_Inr [OF sa, of w persona inputs o1 v p1 i1 fp] a Inr r assms
      have eq: "p' = p1" "st' = dict_set st (name f) v" "inputs' = i1"
        and sub: "set o1 \<subseteq> set out"
        by auto
      from a Inr r eq
      have al: "ask_loop w f (fst (maybe_llm_rewrite w (style_prompt (prompt f) persona) persona ''question''))
             persona inputs = (o1, Inr (v, p', inputs'))"
        by (simp add: ask_field_def Let_def)
      from ask_loop_result [OF al] obtain line e where
        "line \<in> set inputs" "validator f (strip line) = Inr (True, v, e)" "p' = detect_persona (strip line)"
        by blast
      moreover have "\<exists>t. Prompted (name f) t \<in> set out"
      proof -
        let ?p = "fst (maybe_llm_rewrite w (style_prompt (prompt f) persona) persona ''question'')"
        obtain out0 where "fst (ask_loop w f ?p persona inputs) = Prompted (name f) (?p @ prompt_suffix) # out0"
          using ask_loop_first by blast
        with al have "Prompted (name f) (?p @ prompt_suffix) \<in> set o1" by simp
        with sub show ?thesis by blast
      qed
      ultimately show ?thesis using sa eq by auto
    qed
  qed
qed

lemma field_step_prompts:
  assumes "Prompted n t \<in> set (fst (field_step fp w f persona st inputs))"
  shows "n = name f"
proof -
  have "set (fst (field_step fp w f persona st inputs))
        \<subseteq> set (fst (ask_field w f persona st inputs)) \<union> range Printed"
  proof (cases "should_ask f st")
    case (Inl e)
    then show ?thesis by (simp add: field_step_raised)
  next
    case (Inr ask)
    show ?thesis
    proof (cases ask)
      case False
      with Inr show ?thesis by (simp add: field_step_not_asked)
    next
      case True
      with Inr have sa: "should_ask f st = Inr True" by simp
      obtain o1 r1 where a: "ask_field w f persona st inputs = (o1, r1)"
        by (cases "ask_field w f persona st inputs") auto
      show ?thesis
      proof (cases r1)
        case (Inl e)
        with field_step_asked_Inl [OF sa] a show ?thesis by simp
      next
        case (Inr r)
        obtain v p1 i1 where r: "r = (v, p1, i1)" by (cases r) auto
        from a Inr r have a': "ask_field w f persona st inputs = (o1, Inr (v, p1, i1))" by simp
        from field_step_asked_Inr [OF sa a', of fp]
        have "fst (field_step fp w f persona st inputs) = o1
              \<or> (\<exists>t. fst (field_step fp w f persona st inputs) = o1 @ [Printed t])"
          by (elim disjE exE) simp_all
        with a show ?thesis by (elim disjE exE) auto
      qed
    qed
  qed
  with assms have "Prompted n t \<in> set (fst (ask_field w f persona st inputs))" by auto
  then show ?thesis
    by (simp add: ask_field_def Let_def ask_loop_prompts)
qed

lemma main_loop_Cons_Inr:
  assumes "main_loop fp w (f # fs) persona st inputs = (out, Inr r)"
  shows "\<exists>o1 p1 st1 i1 o2. field_step fp w f persona st inputs = (o1, Inr (p1, st1, i1))
           \<and> main_loop fp w fs p1 st1 i1 = (o2, Inr r) \<and> out = o1 @ o2"
  using assms by (auto split: prod.splits sum.splits)

lemma main_loop_append_Inr:
  "main_loop fp w (xs @ ys) persona st inputs = (out, Inr r) \<Longrightarrow>
   \<exists>o1 p1 st1 i1 o2. main_loop fp w xs persona st inputs = (o1, Inr (p1, st1, i1))
           \<and> main_loop fp w ys p1 st1 i1 = (o2, Inr r) \<and> out = o1 @ o2"
proof (induction xs arbitrary: persona st inputs out)
  case Nil
  then show ?case by simp
next
  case (Cons f xs)
  from Cons.prems have "main_loop fp w (f # (xs @ ys)) persona st inputs = (out, Inr r)" by simp
  from main_loop_Cons_Inr [OF this] obtain o1 p1 st1 i1 o2 where
    f: "field_step fp w f persona st inputs = (o1, Inr (p1, st1, i1))"
    and r: "main_loop fp w (xs @ ys) p1 st1 i1 = (o2, Inr r)" and out: "out = o1 @ o2"
    by blast
  from Cons.IH [OF r] obtain o3 p3 st3 i3 o4 where
    x: "main_loop fp w xs p1 st1 i1 = (o3, Inr (p3, st3, i3))"
    and y: "main_loop fp w ys p3 st3 i3 = (o4, Inr r)" and o2: "o2 = o3 @ o4"
    by blast
  from f x have "main_loop fp w (f # xs) persona st inputs = (o1 @ o3, Inr (p3, st3, i3))" by simp
  with y out o2 show ?case by auto
qed

lemma main_loop_grows:
  assumes "main_loop fp w fs persona st inputs = (out, Inr (p', st', inputs'))"
    and "distinct (map name fs)" and "set (keys st) \<inter> set (map name fs) = {}"
  shows "\<exists>added. st' = st @ added \<and> subseq (keys added) (map name fs)"
  using assms
proof (induction fs arbitrary: persona st inputs out)
  case Nil
  then show ?case by (auto simp: keys_def)
next
  case (Cons f fs)
  from main_loop_Cons_Inr [OF Cons.prems(1)] obtain o1 p1 st1 i1 o2 where
    f: "field_step fp w f persona st inputs = (o1, Inr (p1, st1, i1))"
    and r: "main_loop fp w fs p1 st1 i1 = (o2, Inr (p', st', inputs'))"
    by blast
  have new: "name f \<notin> set (keys st)" using Cons.prems(3) by auto
  from field_step_cases [OF f] new have "st1 = st \<or> (\<exists>v. st1 = st @ [(name f, v)])"
    by (auto simp: dict_set_new)
  then obtain a1 where a1: "st1 = st @ a1" "a1 = [] \<or> (\<exists>v. a1 = [(name f, v)])"
    by auto
  have "set (keys st1) \<subseteq> insert (name f) (set (keys st))"
    using a1 by (auto simp: keys_def)
  moreover have "name f \<notin> set (map name fs)" "set (keys st) \<inter> set (map name fs) = {}"
    using Cons.prems(2,3) by auto
  ultimately have "set (keys st1) \<inter> set (map name fs) = {}"
    by blast
  with Cons.IH [OF r] Cons.prems(2) obtain a2 where
    a2: "st' = st1 @ a2" "subseq (keys a2) (map name fs)"
    by auto
  have "subseq (keys (a1 @ a2)) (map name (f # fs))"
    using a1(2) a2(2) by (auto simp: keys_def)
  with a1 a2 show ?case by (intro exI [of _ "a1 @ a2"]) simp
qed

lemma main_loop_prompts:
  "Prompted n t \<in> set (fst (main_loop fp w fs persona st inputs)) \<Longrightarrow> n \<in> set (map name fs)"
proof (induction fs arbitrary: persona st inputs)
  case Nil
  then show ?case by simp
next
  case (Cons f fs)
  obtain o1 r1 where f: "field_step fp w f persona st inputs = (o1, r1)"
    by (cases "field_step fp w f persona st inputs") auto
  show ?case
  proof (cases r1)
    case (Inl e)
    with f Cons.prems have "Prompted n t \<in> set (fst (field_step fp w f persona st inputs))"
      by simp
    then show ?thesis using field_step_prompts by fastforce
  next
    case (Inr r)
    obtain p1 st1 i1 where r: "r = (p1, st1, i1)" by (cases r) auto
    with f Inr Cons.prems
    have "Prompted n t \<in> set o1 \<or> Prompted n t \<in> set (fst (main_loop fp w fs p1 st1 i1))"
      by (auto split: prod.splits)
    then show ?thesis
    proof
      assume "Prompted n t \<in> set o1"
      with f have "Prompted n t \<in> set (fst (field_step fp w f persona st inputs))" by simp
      then show ?thesis using field_step_prompts by fastforce
    next
      assume "Prompted n t \<in> set (fst (main_loop fp w fs p1 st1 i1))"
      from Cons.IH [OF this] show ?thesis by simp
    qed
  qed
qed



lemma subseq_set: "subseq xs ys \<Longrightarrow> set xs \<subseteq> set ys"
  by (auto dest: list_emb_set)

lemma subseq_distinct: "subseq xs ys \<Longrightarrow> distinct ys \<Longrightarrow> distinct xs"
  using subseqs_distinctD [of xs ys] by simp

lemma keys_append: "keys (a @ b) = keys a @ keys b"
  by (simp add: keys_def)

lemma map_of_after:
  "k \<notin> set (keys a) \<Longrightarrow> map_of (a @ (k, v) # b) k = Some v"
  by (induction a) (auto simp: keys_def)

lemma map_of_prefix:
  "k \<in> set (keys a) \<Longrightarrow> map_of (a @ b) k = map_of a k"
  by (induction a) (auto simp: keys_def)

lemma field_reached:
  assumes d: "distinct (map name fs)" and k: "k < length fs"
    and run: "main_loop fp w fs p0 [] inputs = (out, Inr (p, st, rest))"
  shows "\<exists>st1 st2. st = st1 @ st2
          \<and> subseq (keys st1) (map name (take k fs))
          \<and> subseq (keys st2) (map name (drop k fs))
          \<and> (name (fs ! k) \<in> set (keys st) \<longleftrightarrow> should_ask (fs ! k) st1 = Inr True)
          \<and> ((\<exists>t. Prompted (name (fs ! k)) t \<in> set out) \<longleftrightarrow> should_ask (fs ! k) st1 = Inr True)
          \<and> (should_ask (fs ! k) st1 = Inr True \<longrightarrow>
               (\<exists>line v e. validator (fs ! k) (strip line) = Inr (True, v, e)
                    \<and> map_of st (name (fs ! k)) = Some v))"
proof -
  let ?A = "take k fs" and ?f = "fs ! k" and ?B = "drop (Suc k) fs"
  let ?n = "name ?f"
  have fs: "fs = ?A @ ?f # ?B" using k by (rule id_take_nth_drop)
  then have "map name fs = map name ?A @ ?n # map name ?B"
    by (metis list.simps(9) map_append)
  with d have dA: "distinct (map name ?A)" and dB: "distinct (map name ?B)"
    and nA: "?n \<notin> set (map name ?A)" and nB: "?n \<notin> set (map name ?B)"
    and AB: "set (map name ?A) \<inter> set (map name ?B) = {}"
    by (auto simp del: map_append)
  from run fs have "main_loop fp w (?A @ ?f # ?B) p0 [] inputs = (out, Inr (p, st, rest))" by simp
  from main_loop_append_Inr [OF this] obtain o1 p1 st1 i1 o2' where
    a: "main_loop fp w ?A p0 [] inputs = (o1, Inr (p1, st1, i1))"
    and b: "main_loop fp w (?f # ?B) p1 st1 i1 = (o2', Inr (p, st, rest))" and out1: "out = o1 @ o2'"
    by blast
  from main_loop_Cons_Inr [OF b] obtain o2 p2 st2 i2 o3 where
    f: "field_step fp w ?f p1 st1 i1 = (o2, Inr (p2, st2, i2))"
    and c: "main_loop fp w ?B p2 st2 i2 = (o3, Inr (p, st, rest))" and out2: "o2' = o2 @ o3"
    by blast
  from main_loop_grows [OF a dA] have s1: "subseq (keys st1) (map name ?A)"
    by (auto simp: keys_def)
  then have k1: "set (keys st1) \<subseteq> set (map name ?A)" by (rule subseq_set)
  with nA have n1: "?n \<notin> set (keys st1)" by blast
  have p1: "\<forall>t. Prompted ?n t \<notin> set o1"
    using main_loop_prompts [of ?n _ fp w ?A p0 "[]" inputs] a nA by auto
  have p3: "\<forall>t. Prompted ?n t \<notin> set o3"
    using main_loop_prompts [of ?n _ fp w ?B p2 st2 i2] c nB by auto
  from field_step_cases [OF f]
  consider (skip) "should_ask ?f st1 = Inr False" "st2 = st1" "o2 = []"
    | (ask) line v e where "should_ask ?f st1 = Inr True" "validator ?f (strip line) = Inr (True, v, e)"
        "st2 = st1 @ [(?n, v)]" "\<exists>t. Prompted ?n t \<in> set o2"
    using n1 by (auto simp: dict_set_new)
  then show ?thesis
  proof cases
    case skip
    have "set (keys st2) \<inter> set (map name ?B) = {}" using skip(2) k1 AB by blast
    from main_loop_grows [OF c dB this] obtain added where
      ad: "st = st2 @ added" "subseq (keys added) (map name ?B)" by blast
    have "subseq (keys added) (map name (drop k fs))"
      using ad(2) Cons_nth_drop_Suc [OF k, symmetric] by (simp add: subseq_drop_many [of _ _ "[?n]", simplified])
    moreover have "?n \<notin> set (keys st)"
      using ad skip(2) n1 nB subseq_set [OF ad(2)] by (auto simp: keys_append)
    moreover have "\<not> (\<exists>t. Prompted ?n t \<in> set out)"
      using out1 out2 skip(3) p1 p3 by simp
    ultimately show ?thesis
      using ad(1) skip s1 by (intro exI [of _ st1] exI [of _ added]) simp
  next
    case ask
    have "set (keys st2) \<inter> set (map name ?B) = {}"
      using ask(3) k1 AB nB by (auto simp: keys_append keys_def)
    from main_loop_grows [OF c dB this] obtain added where
      ad: "st = st2 @ added" "subseq (keys added) (map name ?B)" by blast
    have "subseq (keys ((?n, v) # added)) (map name (drop k fs))"
      using ad(2) Cons_nth_drop_Suc [OF k, symmetric] by (simp add: keys_def)
    moreover have "?n \<in> set (keys st)"
      using ad(1) ask(3) by (simp add: keys_def)
    moreover have "\<exists>t. Prompted ?n t \<in> set out"
      using out1 out2 ask(4) by auto
    moreover have "map_of st ?n = Some v"
      using ad(1) ask(3) map_of_after [OF n1, of v added] by simp
    ultimately show ?thesis
      using ad(1) ask s1 by (intro exI [of _ st1] exI [of _ "(?n, v) # added"]) auto
  qed
qed


subsection \<open>Running the engine on given lines\<close>

lemma char_of_nat_bits:
  "char_of (n::nat) = Char (odd n) (odd (n div 2)) (odd (n div 4)) (odd (n div 8))
                        (odd (n div 16)) (odd (n div 32)) (odd (n div 64)) (odd (n div 128))"
  by (simp add: char_of_def bit_iff_odd_drop_bit drop_bit_eq_div)

lemma snd_main_loop_Nil: "snd (main_loop fp w [] persona st inputs) = Inr (persona, st, inputs)"
  by simp

lemma snd_main_loop_Cons:
  "snd (main_loop fp w (f # fs) persona st inputs) =
     (case snd (field_step fp w f persona st inputs) of
        Inl e \<Rightarrow> Inl e
      | Inr (p', st', inputs') \<Rightarrow> snd (main_loop fp w fs p' st' inputs'))"
  by (simp split: prod.splits sum.splits)

lemma snd_field_step_skip:
  "should_ask f st = Inr False \<Longrightarrow>
   snd (field_step fp w f persona st inputs) = Inr (persona, st, inputs)"
  by (simp add: field_step_not_asked)

lemma snd_field_step_accept:
  assumes "should_ask f st = Inr True"
    and "\<not> isl (validator f (strip line))" and "fst (projr (validator f (strip line)))"
    and "name f = ''MissedPayments'' \<longrightarrow>
           \<not> isl (gt_zero fp (fst (snd (projr (validator f (strip line))))))"
  shows "snd (field_step fp w f persona st (line # rest)) =
           Inr (detect_persona (strip line),
                dict_set st (name f) (fst (snd (projr (validator f (strip line))))), rest)"
proof -
  from assms(2,3) obtain v e where acc: "validator f (strip line) = Inr (True, v, e)"
    by (cases rule: validator_cases [of f "strip line"]) auto
  have a: "ask_field w f persona st (line # rest) =
          ([Prompted (name f)
              (fst (maybe_llm_rewrite w (style_prompt (prompt f) persona) persona ''question'') @ prompt_suffix)],
           Inr (v, detect_persona (strip line), rest))"
    using ask_loop_accept [OF acc] by (simp add: ask_field_def Let_def del: ask_loop.simps)
  from field_step_asked_Inr [OF assms(1) a, of fp] assms(4) acc
  show ?thesis
    by (auto simp: field_step_def assms(1) a Let_def split: sum.splits)
qed

lemma snd_main:
  "snd (main fp w inputs) =
     (case snd (main_loop fp w (SCHEMA fp) ''cooperative'' [] inputs) of
        Inl e \<Rightarrow> Inl e
      | Inr (p, st, rest) \<Rightarrow> Inr st)"
  by (simp add: main_def split: prod.splits sum.splits)

lemma student_run: "snd (main whole_floats no_llm student_inputs) = Inr student_answers"
  by (simp add: snd_main student_inputs_def student_answers_def SCHEMA_def field_spec_def
        snd_main_loop_Cons snd_field_step_accept snd_field_step_skip
        should_ask_def income_optional_if_unemployed_or_student_def partial_payments_if_missed_def
        dict_get_def dict_set_def keys_def gt_zero_def whole_floats_def
        customer_id_def int_in_range_def positive_float_def float_in_range_def one_of_def
        strip_def is_space_def lower_def lower_char_def is_upper_def is_lower_def is_alpha_def
        is_digit_def is_word_def fullmatch_id_def fullmatch_int_def digits1_def py_int_def
        int_value_def digit_count_def int_max_str_digits_def returns_def
        nat_of_digits_def digit_val_def remove_commas_def index_def char_of_nat_bits Let_def
        snd_main_loop_Nil
      del: main_loop.simps)

lemma age_evals:
  "detect_persona (strip ''what?'') = ''confused''"
  "detect_persona (strip ''30'') = ''cooperative''"
  "(int_in_range 18 75 (strip ''what?'') :: error + int outcome)
      = Inr (False, VNone, ''Please enter a whole number between 18 and 75.'')"
  "(int_in_range 18 75 (strip ''30'') :: error + int outcome) = Inr (True, VInt 30, [])"
  by code_simp+

lemma no_llm_rewrite: "maybe_llm_rewrite no_llm t p r = (t, [])"
  by (simp add: maybe_llm_rewrite_def USE_LLM_def no_llm_def)


section \<open>Personas across turns\<close>

text \<open>
  C4, as the program has it.  \<^verbatim>\<open>ask_field\<close> styles the prompt of a field once, for the
  persona it is called with.  At every line it reads, whichever attempt it is: a rejected
  line has its error message styled with the persona detected from that line, and what
  follows is the same call on the lines that remain, so the prompt issued again is the
  text issued first and the persona of the rejected line is not kept; an accepted line
  ends the call with the persona detected from it.  That persona styles the note after
  \<^verbatim>\<open>MissedPayments\<close> and is the one the fields after it are asked under; a field that
  is skipped leaves it as it is.
\<close>

theorem persona_of_each_line:
  "ask_field w f persona st [] = ([field_prompt w f persona], Inl EOFError)
   \<and> (validator f (strip line) = Inl e \<longrightarrow>
        ask_field w f persona st (line # rest) = ([field_prompt w f persona], Inl e))
   \<and> (validator f (strip line) = Inr (False, v, err) \<longrightarrow>
        ask_field w f persona st (line # rest) =
          (field_prompt w f persona # error_line w err (detect_persona (strip line))
             # fst (ask_field w f persona st rest),
           snd (ask_field w f persona st rest)))
   \<and> (validator f (strip line) = Inr (True, v, err) \<longrightarrow>
        ask_field w f persona st (line # rest) =
          ([field_prompt w f persona], Inr (v, detect_persona (strip line), rest)))
   \<and> (\<exists>more. fst (ask_field w f persona st inputs) = field_prompt w f persona # more)
   \<and> (should_ask f st = Inr True \<and> ask_field w f persona st inputs = (out, Inr (val, p', inputs')) \<longrightarrow>
        field_step fp w f persona st inputs =
          (if name f = ''MissedPayments'' then
             (case gt_zero fp val of
                Inl e' \<Rightarrow> (out, Inl e')
              | Inr positive \<Rightarrow>
                  (if positive then out @ [note_line w p'] else out,
                   Inr (p', dict_set st (name f) val, inputs')))
           else (out, Inr (p', dict_set st (name f) val, inputs'))))
   \<and> (should_ask f st = Inr False \<longrightarrow>
        field_step fp w f persona st inputs = ([], Inr (persona, st, inputs)))
   \<and> (field_step fp w f persona st inputs = (out, Inr (p', st', inputs')) \<longrightarrow>
        main_loop fp w (f # fs) persona st inputs =
          (out @ fst (main_loop fp w fs p' st' inputs'), snd (main_loop fp w fs p' st' inputs')))"
proof (intro conjI impI)
  show "ask_field w f persona st [] = ([field_prompt w f persona], Inl EOFError)"
    by (simp add: ask_field_def Let_def)
next
  assume "validator f (strip line) = Inl e"
  from ask_loop_raise [OF this]
  show "ask_field w f persona st (line # rest) = ([field_prompt w f persona], Inl e)"
    by (simp add: ask_field_def Let_def del: ask_loop.simps)
next
  assume "validator f (strip line) = Inr (False, v, err)"
  from ask_loop_reject [OF this]
  show "ask_field w f persona st (line # rest) =
          (field_prompt w f persona # error_line w err (detect_persona (strip line))
             # fst (ask_field w f persona st rest),
           snd (ask_field w f persona st rest))"
    by (simp add: ask_field_def Let_def del: ask_loop.simps)
next
  assume "validator f (strip line) = Inr (True, v, err)"
  from ask_loop_accept [OF this]
  show "ask_field w f persona st (line # rest) =
          ([field_prompt w f persona], Inr (v, detect_persona (strip line), rest))"
    by (simp add: ask_field_def Let_def del: ask_loop.simps)
next
  show "\<exists>more. fst (ask_field w f persona st inputs) = field_prompt w f persona # more"
    using ask_loop_first by (simp add: ask_field_def Let_def)
next
  assume "should_ask f st = Inr True \<and> ask_field w f persona st inputs = (out, Inr (val, p', inputs'))"
  then show "field_step fp w f persona st inputs =
          (if name f = ''MissedPayments'' then
             (case gt_zero fp val of
                Inl e' \<Rightarrow> (out, Inl e')
              | Inr positive \<Rightarrow>
                  (if positive then out @ [note_line w p'] else out,
                   Inr (p', dict_set st (name f) val, inputs')))
           else (out, Inr (p', dict_set st (name f) val, inputs')))"
    by (simp add: field_step_def Let_def split: sum.splits)
next
  assume "should_ask f st = Inr False"
  then show "field_step fp w f persona st inputs = ([], Inr (persona, st, inputs))"
    by (rule field_step_not_asked)
next
  assume "field_step fp w f persona st inputs = (out, Inr (p', st', inputs'))"
  then show "main_loop fp w (f # fs) persona st inputs =
          (out @ fst (main_loop fp w fs p' st' inputs'), snd (main_loop fp w fs p' st' inputs'))"
    by (simp split: prod.splits)
qed

lemma turn_evals:
  "detect_persona (strip ''no!'') = ''aggressive''"
  "detect_persona (strip ''2'') = ''cooperative''"
  "(int_in_range 18 75 (strip ''no!'') :: error + int outcome)
      = Inr (False, VNone, ''Please enter a whole number between 18 and 75.'')"
  "(int_in_range 0 24 (strip ''2'') :: error + int outcome) = Inr (True, VInt 2, [])"
  by code_simp+

theorem persona_of_each_line_witness:
  "validator (SCHEMA whole_floats ! 1) (strip (replicate 4301 (CHR ''1''))) = Inl ValueError
   \<and> ask_field no_llm (SCHEMA whole_floats ! 1) ''cooperative'' [] [replicate 4301 (CHR ''1''), ''30'']
       = ([field_prompt no_llm (SCHEMA whole_floats ! 1) ''cooperative''], Inl ValueError)
   \<and> validator (SCHEMA whole_floats ! 1) (strip ''no!'')
       = Inr (False, VNone, ''Please enter a whole number between 18 and 75.'')
   \<and> detect_persona (strip ''no!'') = ''aggressive''
   \<and> ask_field no_llm (SCHEMA whole_floats ! 1) ''confused'' [] [''no!'', ''30'']
       = (field_prompt no_llm (SCHEMA whole_floats ! 1) ''confused''
            # error_line no_llm ''Please enter a whole number between 18 and 75.'' ''aggressive''
            # fst (ask_field no_llm (SCHEMA whole_floats ! 1) ''confused'' [] [''30'']),
          snd (ask_field no_llm (SCHEMA whole_floats ! 1) ''confused'' [] [''30'']))
   \<and> validator (SCHEMA whole_floats ! 1) (strip ''30'') = Inr (True, VInt 30, [])
   \<and> ask_field no_llm (SCHEMA whole_floats ! 1) ''confused'' [] [''30'']
       = ([field_prompt no_llm (SCHEMA whole_floats ! 1) ''confused''], Inr (VInt 30, ''cooperative'', []))
   \<and> should_ask (SCHEMA whole_floats ! 9) [] = Inr True
   \<and> ask_field no_llm (SCHEMA whole_floats ! 9) ''confused'' [] [''2'', ''0'']
       = ([field_prompt no_llm (SCHEMA whole_floats ! 9) ''confused''], Inr (VInt 2, ''cooperative'', [''0'']))
   \<and> field_step whole_floats no_llm (SCHEMA whole_floats ! 9) ''confused'' [] [''2'', ''0'']
       = ([field_prompt no_llm (SCHEMA whole_floats ! 9) ''confused'', note_line no_llm ''cooperative''],
          Inr (''cooperative'', [(''MissedPayments'', VInt 2)], [''0'']))
   \<and> should_ask (SCHEMA whole_floats ! 11) [(''MissedPayments'', VInt 0)] = Inr False
   \<and> field_step whole_floats no_llm (SCHEMA whole_floats ! 11) ''confused''
         [(''MissedPayments'', VInt 0)] [''7'']
       = ([], Inr (''confused'', [(''MissedPayments'', VInt 0)], [''7'']))
   \<and> main_loop whole_floats no_llm [SCHEMA whole_floats ! 9, SCHEMA whole_floats ! 10] ''confused'' []
         [''2'', ''0'']
       = ([field_prompt no_llm (SCHEMA whole_floats ! 9) ''confused'', note_line no_llm ''cooperative'']
            @ fst (main_loop whole_floats no_llm [SCHEMA whole_floats ! 10] ''cooperative''
                     [(''MissedPayments'', VInt 2)] [''0'']),
          snd (main_loop whole_floats no_llm [SCHEMA whole_floats ! 10] ''cooperative''
                 [(''MissedPayments'', VInt 2)] [''0'']))"
proof -
  let ?age = "SCHEMA whole_floats ! 1" and ?mp = "SCHEMA whole_floats ! 9"
    and ?dd = "SCHEMA whole_floats ! 10"
  let ?long = "replicate 4301 (CHR ''1'')"
  let ?msg = "''Please enter a whole number between 18 and 75.''"
  let ?st = "[(''MissedPayments'', VInt 2)] :: int answers"
  let ?out = "[field_prompt no_llm ?mp ''confused'', note_line no_llm ''cooperative'']"
  have va: "validator ?age = int_in_range 18 75" and vm: "validator ?mp = int_in_range 0 24"
    and nm: "name ?mp = ''MissedPayments''" and ask: "should_ask ?mp [] = Inr True"
    by (simp_all add: SCHEMA_def field_spec_def should_ask_def)
  have "(4301::nat) = Suc 4300" by simp
  then have long: "validator ?age (strip ?long) = Inl ValueError"
    using int_in_range_long [of 4300 18 75, where 'f = int]
    by (simp only: va ones_plain) (simp add: int_max_str_digits_def)
  have rej: "validator ?age (strip ''no!'') = Inr (False, VNone, ?msg)"
    and acc: "validator ?age (strip ''30'') = Inr (True, VInt 30, [])"
    and two: "validator ?mp (strip ''2'') = Inr (True, VInt 2, [])"
    by (simp_all only: va vm turn_evals age_evals)
  note t = persona_of_each_line [where fp = whole_floats and w = no_llm]
  note t0 = t [where st = "[]"]
  from t0 [where f = ?age and line = ?long and e = ValueError and persona = "''cooperative''"
           and rest = "[''30'']"] long
  have c1: "ask_field no_llm ?age ''cooperative'' [] [?long, ''30'']
       = ([field_prompt no_llm ?age ''cooperative''], Inl ValueError)"
    by blast
  from t0 [where f = ?age and line = "''no!''" and v = VNone and err = ?msg and persona = "''confused''"
           and rest = "[''30'']"] rej
  have c2: "ask_field no_llm ?age ''confused'' [] [''no!'', ''30'']
       = (field_prompt no_llm ?age ''confused''
            # error_line no_llm ?msg (detect_persona (strip ''no!''))
            # fst (ask_field no_llm ?age ''confused'' [] [''30'']),
          snd (ask_field no_llm ?age ''confused'' [] [''30'']))"
    by blast
  from t0 [where f = ?age and line = "''30''" and v = "VInt 30" and err = "[]" and persona = "''confused''"
           and rest = "[]"] acc
  have c3: "ask_field no_llm ?age ''confused'' [] [''30'']
       = ([field_prompt no_llm ?age ''confused''], Inr (VInt 30, detect_persona (strip ''30''), []))"
    by blast
  from t0 [where f = ?mp and line = "''2''" and v = "VInt 2" and err = "[]" and persona = "''confused''"
           and rest = "[''0'']"] two
  have c4: "ask_field no_llm ?mp ''confused'' [] [''2'', ''0'']
       = ([field_prompt no_llm ?mp ''confused''], Inr (VInt 2, detect_persona (strip ''2''), [''0'']))"
    by blast
  then have c4': "ask_field no_llm ?mp ''confused'' [] [''2'', ''0'']
       = ([field_prompt no_llm ?mp ''confused''], Inr (VInt 2, ''cooperative'', [''0'']))"
    by (simp only: turn_evals)
  from t0 [where f = ?mp and persona = "''confused''" and inputs = "[''2'', ''0'']"
           and out = "[field_prompt no_llm ?mp ''confused'']" and val = "VInt 2"
           and p' = "''cooperative''" and inputs' = "[''0'']"] ask c4'
  have "field_step whole_floats no_llm ?mp ''confused'' [] [''2'', ''0''] =
          (if name ?mp = ''MissedPayments'' then
             (case gt_zero whole_floats (VInt 2) of
                Inl e' \<Rightarrow> ([field_prompt no_llm ?mp ''confused''], Inl e')
              | Inr positive \<Rightarrow>
                  (if positive then [field_prompt no_llm ?mp ''confused''] @ [note_line no_llm ''cooperative'']
                   else [field_prompt no_llm ?mp ''confused''],
                   Inr (''cooperative'', dict_set [] (name ?mp) (VInt 2), [''0''])))
           else ([field_prompt no_llm ?mp ''confused''],
                 Inr (''cooperative'', dict_set [] (name ?mp) (VInt 2), [''0''])))"
    by blast
  then have c5: "field_step whole_floats no_llm ?mp ''confused'' [] [''2'', ''0'']
       = (?out, Inr (''cooperative'', ?st, [''0'']))"
    by (simp add: nm gt_zero_def dict_set_def keys_def)
  from t0 [where f = ?mp and persona = "''confused''" and inputs = "[''2'', ''0'']"
           and out = ?out and p' = "''cooperative''" and st' = ?st and inputs' = "[''0'']"
           and fs = "[?dd]"] c5
  have c6: "main_loop whole_floats no_llm [?mp, ?dd] ''confused'' [] [''2'', ''0'']
       = (?out @ fst (main_loop whole_floats no_llm [?dd] ''cooperative'' ?st [''0'']),
          snd (main_loop whole_floats no_llm [?dd] ''cooperative'' ?st [''0'']))"
    by blast
  have skip: "should_ask (SCHEMA whole_floats ! 11) [(''MissedPayments'', VInt 0)] = Inr False"
    by (simp add: SCHEMA_def field_spec_def should_ask_def partial_payments_if_missed_def
        dict_get_def gt_zero_def)
  from t [where f = "SCHEMA whole_floats ! 11" and persona = "''confused''" and inputs = "[''7'']"
           and st = "[(''MissedPayments'', VInt 0)]"] skip
  have c7: "field_step whole_floats no_llm (SCHEMA whole_floats ! 11) ''confused''
         [(''MissedPayments'', VInt 0)] [''7'']
       = ([], Inr (''confused'', [(''MissedPayments'', VInt 0)], [''7'']))"
    by blast
  from c2 have c2': "ask_field no_llm ?age ''confused'' [] [''no!'', ''30'']
       = (field_prompt no_llm ?age ''confused'' # error_line no_llm ?msg ''aggressive''
            # fst (ask_field no_llm ?age ''confused'' [] [''30'']),
          snd (ask_field no_llm ?age ''confused'' [] [''30'']))"
    by (simp only: turn_evals)
  from c3 have c3': "ask_field no_llm ?age ''confused'' [] [''30'']
       = ([field_prompt no_llm ?age ''confused''], Inr (VInt 30, ''cooperative'', []))"
    by (simp only: age_evals)
  show ?thesis
    by (intro conjI) (rule long c1 rej turn_evals(1) c2' acc c3' ask c4' c5 skip c7 c6)+
qed

text \<open>
  C4 as stated fails: asked for the age under the cooperative persona, the line
  \<^verbatim>\<open>what?\<close> is rejected and detected as confused; the error is styled for
  confused, and the prompt issued again is still the cooperative one.
\<close>

theorem reissued_prompt_not_restyled:
  "detect_persona (strip ''what?'') = ''confused''
   \<and> ask_field no_llm (SCHEMA whole_floats ! 1) ''cooperative'' [] [''what?'', ''30''] =
       ([Prompted ''Age'' (style_prompt (prompt (SCHEMA whole_floats ! 1)) ''cooperative'' @ prompt_suffix),
         Printed (style_error ''Please enter a whole number between 18 and 75.'' ''confused''),
         Prompted ''Age'' (style_prompt (prompt (SCHEMA whole_floats ! 1)) ''cooperative'' @ prompt_suffix)],
        Inr (VInt 30, ''cooperative'', []))
   \<and> style_prompt (prompt (SCHEMA whole_floats ! 1)) ''cooperative''
       \<noteq> style_prompt (prompt (SCHEMA whole_floats ! 1)) ''confused''"
proof -
  let ?f = "SCHEMA whole_floats ! 1"
  let ?p = "style_prompt (prompt ?f) ''cooperative''"
  have n: "name ?f = ''Age''" and v: "validator ?f = int_in_range 18 75"
    by (simp_all add: SCHEMA_def field_spec_def)
  have acc: "validator ?f (strip ''30'') = Inr (True, VInt 30, [])"
    and rej: "validator ?f (strip ''what?'')
                = Inr (False, VNone, ''Please enter a whole number between 18 and 75.'')"
    by (simp_all only: v age_evals)
  have "ask_loop no_llm ?f ?p ''cooperative'' [''what?'', ''30'']
      = ([Prompted ''Age'' (?p @ prompt_suffix),
          Printed (style_error ''Please enter a whole number between 18 and 75.'' ''confused''),
          Prompted ''Age'' (?p @ prompt_suffix)],
         Inr (VInt 30, ''cooperative'', []))"
    by (simp only: ask_loop_reject [OF rej] ask_loop_accept [OF acc] n age_evals no_llm_rewrite
          fst_conv snd_conv)
  moreover have "?p \<noteq> style_prompt (prompt ?f) ''confused''"
    by (simp add: style_prompt_def)
  ultimately show ?thesis
    by (simp only: ask_field_def Let_def no_llm_rewrite fst_conv age_evals simp_thms)
qed


section \<open>The schema and completed runs\<close>

lemma schema_names:
  "map name (SCHEMA fp) =
     [''CustomerID'', ''Age'', ''Income'', ''Location'', ''EmploymentStatus'', ''LoanAmount'',
      ''TenureMonths'', ''InterestRate'', ''LoanType'', ''MissedPayments'', ''DelaysDays'',
      ''PartialPayments'', ''InteractionAttempts'', ''SentimentScore'', ''ResponseTimeHours'',
      ''AppUsageFrequency'', ''WebsiteVisits'', ''Complaints'', ''Target'']"
  by (simp add: SCHEMA_def field_spec_def)

lemma schema_distinct: "distinct (map name (SCHEMA fp))"
  by (simp add: schema_names)

lemma schema_length: "length (SCHEMA fp) = 19"
  using arg_cong [OF schema_names [of fp], of length] by simp

lemma schema_fields:
  "name (SCHEMA fp ! 2) = ''Income''"
  "depends_on (SCHEMA fp ! 2) = Some income_optional_if_unemployed_or_student"
  "name (SCHEMA fp ! 9) = ''MissedPayments''"
  "depends_on (SCHEMA fp ! 9) = None"
  "validator (SCHEMA fp ! 9) = int_in_range 0 24"
  "name (SCHEMA fp ! 11) = ''PartialPayments''"
  "depends_on (SCHEMA fp ! 11) = Some (partial_payments_if_missed fp)"
  by (simp_all add: SCHEMA_def field_spec_def)

lemma main_completed:
  assumes "snd (main fp w inputs) = Inr st"
  shows "\<exists>out p rest. main_loop fp w (SCHEMA fp) ''cooperative'' [] inputs = (out, Inr (p, st, rest))
           \<and> fst (main fp w inputs) = greeting @ out @ summary fp st"
proof -
  obtain out r where m: "main_loop fp w (SCHEMA fp) ''cooperative'' [] inputs = (out, r)"
    by (cases "main_loop fp w (SCHEMA fp) ''cooperative'' [] inputs") auto
  show ?thesis
  proof (cases r)
    case (Inl e)
    with m assms show ?thesis by (simp add: main_def)
  next
    case (Inr x)
    obtain p st0 rest where "x = (p, st0, rest)" by (cases x) auto
    with m Inr assms show ?thesis by (simp add: main_def)
  qed
qed

lemma frame_has_no_prompt:
  "Prompted n t \<notin> set greeting" "Prompted n t \<notin> set (summary fp st)"
  by (auto simp: greeting_def summary_def)

lemma prompt_in_main:
  assumes "fst (main fp w inputs) = greeting @ out @ summary fp st"
  shows "(\<exists>t. Prompted n t \<in> set (fst (main fp w inputs))) \<longleftrightarrow> (\<exists>t. Prompted n t \<in> set out)"
  by (auto simp: assms frame_has_no_prompt)

lemma map_of_keys: "map_of st k = Some v \<Longrightarrow> k \<in> set (keys st)"
  by (auto simp: keys_def dest: map_of_SomeD intro: rev_image_eqI)

text \<open>
  C1, as the program has it: \<^verbatim>\<open>Income\<close> stands before \<^verbatim>\<open>EmploymentStatus\<close> in
  the schema, so its predicate finds no employment status in the answers and holds.  Every
  completed run has asked for the income and holds the key, whatever status is given
  later, as in the run of a student that follows.
\<close>

theorem income_asked_whatever_the_status:
  "snd (main fp w inputs) = Inr st \<longrightarrow>
     ''Income'' \<in> set (keys st) \<and> (\<exists>t. Prompted ''Income'' t \<in> set (fst (main fp w inputs)))"
proof
  assume "snd (main fp w inputs) = Inr st"
  from main_completed [OF this] obtain out p rest where
    run: "main_loop fp w (SCHEMA fp) ''cooperative'' [] inputs = (out, Inr (p, st, rest))"
    and fm: "fst (main fp w inputs) = greeting @ out @ summary fp st"
    by blast
  have k: "2 < length (SCHEMA fp)" by (simp add: schema_length)
  from field_reached [OF schema_distinct k run] obtain st1 where
    s1: "subseq (keys st1) (map name (take 2 (SCHEMA fp)))"
    and key: "name (SCHEMA fp ! 2) \<in> set (keys st) \<longleftrightarrow> should_ask (SCHEMA fp ! 2) st1 = Inr True"
    and pr: "(\<exists>t. Prompted (name (SCHEMA fp ! 2)) t \<in> set out) \<longleftrightarrow> should_ask (SCHEMA fp ! 2) st1 = Inr True"
    by blast
  have "set (keys st1) \<subseteq> {''CustomerID'', ''Age''}"
    using subseq_set [OF s1] by (simp add: take_map [symmetric] schema_names)
  then have "''EmploymentStatus'' \<notin> fst ` set st1" by (auto simp: keys_def)
  then have "map_of st1 ''EmploymentStatus'' = None" by (simp add: map_of_eq_None_iff)
  then have "should_ask (SCHEMA fp ! 2) st1 = Inr True"
    by (simp add: should_ask_def schema_fields income_optional_if_unemployed_or_student_def
        dict_get_def lower_def)
  with key pr show "''Income'' \<in> set (keys st) \<and> (\<exists>t. Prompted ''Income'' t \<in> set (fst (main fp w inputs)))"
    by (simp add: schema_fields prompt_in_main [OF fm])
qed

text \<open>
  C2: a completed run holds a number of missed payments between 0 and 24; the key
  \<^verbatim>\<open>PartialPayments\<close> is among its answers exactly when that number is positive, and
  the prompt of \<^verbatim>\<open>PartialPayments\<close> has been issued exactly then.
\<close>

theorem partial_payments_iff_missed:
  "snd (main fp w inputs) = Inr st \<longrightarrow>
     (\<exists>n. map_of st ''MissedPayments'' = Some (VInt n) \<and> 0 \<le> n \<and> n \<le> 24
          \<and> (''PartialPayments'' \<in> set (keys st) \<longleftrightarrow> 0 < n)
          \<and> ((\<exists>t. Prompted ''PartialPayments'' t \<in> set (fst (main fp w inputs))) \<longleftrightarrow> 0 < n))"
proof
  assume "snd (main fp w inputs) = Inr st"
  from main_completed [OF this] obtain out p rest where
    run: "main_loop fp w (SCHEMA fp) ''cooperative'' [] inputs = (out, Inr (p, st, rest))"
    and fm: "fst (main fp w inputs) = greeting @ out @ summary fp st"
    by blast
  have k9: "9 < length (SCHEMA fp)" and k11: "11 < length (SCHEMA fp)" by (simp_all add: schema_length)
  have "should_ask (SCHEMA fp ! 9) st1 = Inr True" for st1 :: "'a answers"
    by (simp add: should_ask_def schema_fields)
  with field_reached [OF schema_distinct k9 run] obtain line v e where
    "validator (SCHEMA fp ! 9) (strip line) = Inr (True, v, e)"
    and "map_of st (name (SCHEMA fp ! 9)) = Some v"
    by blast
  then obtain n where mp: "map_of st ''MissedPayments'' = Some (VInt n)" and n: "0 \<le> n" "n \<le> 24"
    using int_in_range_accept [of 0 24 "strip line" v e] by (auto simp: schema_fields)
  from field_reached [OF schema_distinct k11 run] obtain st1 st2 where
    st: "st = st1 @ st2"
    and s2: "subseq (keys st2) (map name (drop 11 (SCHEMA fp)))"
    and key: "name (SCHEMA fp ! 11) \<in> set (keys st) \<longleftrightarrow> should_ask (SCHEMA fp ! 11) st1 = Inr True"
    and pr: "(\<exists>t. Prompted (name (SCHEMA fp ! 11)) t \<in> set out) \<longleftrightarrow> should_ask (SCHEMA fp ! 11) st1 = Inr True"
    by blast
  have "''MissedPayments'' \<notin> set (keys st2)"
    using subseq_set [OF s2] by (auto simp: drop_map [symmetric] schema_names)
  moreover have "''MissedPayments'' \<in> set (keys st)" using mp by (rule map_of_keys)
  ultimately have "''MissedPayments'' \<in> set (keys st1)" using st by (simp add: keys_append)
  then have "map_of st1 ''MissedPayments'' = Some (VInt n)"
    using mp st map_of_prefix [of "''MissedPayments''" st1 st2] by simp
  then have "should_ask (SCHEMA fp ! 11) st1 = Inr (0 < n)"
    by (simp add: should_ask_def schema_fields partial_payments_if_missed_def dict_get_def gt_zero_def)
  with key pr mp n
  show "\<exists>n. map_of st ''MissedPayments'' = Some (VInt n) \<and> 0 \<le> n \<and> n \<le> 24
          \<and> (''PartialPayments'' \<in> set (keys st) \<longleftrightarrow> 0 < n)
          \<and> ((\<exists>t. Prompted ''PartialPayments'' t \<in> set (fst (main fp w inputs))) \<longleftrightarrow> 0 < n)"
    by (simp add: schema_fields prompt_in_main [OF fm])
qed


theorem income_asked_whatever_the_status_witness:
  "snd (main whole_floats no_llm student_inputs) = Inr student_answers
   \<and> map_of student_answers ''EmploymentStatus'' = Some (VStr ''Student'')
   \<and> ''Income'' \<in> set (keys student_answers)
   \<and> (\<exists>t. Prompted ''Income'' t \<in> set (fst (main whole_floats no_llm student_inputs)))"
  using income_asked_whatever_the_status [of whole_floats no_llm student_inputs student_answers]
    student_run
  by (simp add: student_answers_def)

theorem partial_payments_iff_missed_witness:
  "snd (main whole_floats no_llm student_inputs) = Inr student_answers
   \<and> map_of student_answers ''MissedPayments'' = Some (VInt 2)
   \<and> ''PartialPayments'' \<in> set (keys student_answers)
   \<and> (\<exists>t. Prompted ''PartialPayments'' t \<in> set (fst (main whole_floats no_llm student_inputs)))"
  using partial_payments_iff_missed [of whole_floats no_llm student_inputs student_answers]
    student_run
  by (auto simp: student_answers_def)

lemma main_loop_snoc:
  assumes "main_loop fp w xs persona st inputs = (o1, Inr (p1, st1, i1))"
    and "field_step fp w f p1 st1 i1 = (o2, r)"
  shows "main_loop fp w (xs @ [f]) persona st inputs = (o1 @ o2, r)"
  using assms
proof (induction xs arbitrary: persona st inputs o1)
  case Nil
  then show ?case by (cases r) (auto split: prod.splits)
next
  case (Cons x xs)
  from main_loop_Cons_Inr [OF Cons.prems(1)] obtain oa pa sa ia ob where
    x: "field_step fp w x persona st inputs = (oa, Inr (pa, sa, ia))"
    and r: "main_loop fp w xs pa sa ia = (ob, Inr (p1, st1, i1))" and o1: "o1 = oa @ ob"
    by blast
  from Cons.IH [OF r Cons.prems(2)] x o1 show ?case by simp
qed

text \<open>
  C9: from the answers reached after the first \<open>k\<close> fields, the step for the next field
  leaves the answers as they are or appends one pair, the name of that field, which was
  not a key before, with a value its validator accepted.  The keys stay distinct and
  follow the order of the schema, and so do those of a completed run.
\<close>

theorem answers_only_grow:
  "(k < length (SCHEMA fp)
      \<and> main_loop fp w (take k (SCHEMA fp)) ''cooperative'' [] inputs = (o1, Inr (p, st, i1))
      \<and> field_step fp w (SCHEMA fp ! k) p st i1 = (o2, Inr (p', st', i2)) \<longrightarrow>
        (st' = st
         \<or> (\<exists>line v e. validator (SCHEMA fp ! k) (strip line) = Inr (True, v, e)
               \<and> st' = st @ [(name (SCHEMA fp ! k), v)]))
        \<and> name (SCHEMA fp ! k) \<notin> set (keys st)
        \<and> distinct (keys st')
        \<and> subseq (keys st') (map name (take (Suc k) (SCHEMA fp)))
        \<and> main_loop fp w (take (Suc k) (SCHEMA fp)) ''cooperative'' [] inputs
            = (o1 @ o2, Inr (p', st', i2)))
   \<and> (snd (main fp w inputs) = Inr final \<longrightarrow>
        distinct (keys final) \<and> subseq (keys final) (map name (SCHEMA fp)))"
proof (intro conjI impI)
  assume "snd (main fp w inputs) = Inr final"
  from main_completed [OF this] obtain out q rest where
    "main_loop fp w (SCHEMA fp) ''cooperative'' [] inputs = (out, Inr (q, final, rest))"
    by blast
  from main_loop_grows [OF this schema_distinct]
  have s: "subseq (keys final) (map name (SCHEMA fp))" by (auto simp: keys_def)
  then show "subseq (keys final) (map name (SCHEMA fp))" .
  from s schema_distinct show "distinct (keys final)" by (rule subseq_distinct)
next
  let ?S = "SCHEMA fp"
  let ?n = "name (?S ! k)"
  assume a: "k < length ?S
      \<and> main_loop fp w (take k ?S) ''cooperative'' [] inputs = (o1, Inr (p, st, i1))
      \<and> field_step fp w (?S ! k) p st i1 = (o2, Inr (p', st', i2))"
  then have k: "k < length ?S"
    and pre: "main_loop fp w (take k ?S) ''cooperative'' [] inputs = (o1, Inr (p, st, i1))"
    and step: "field_step fp w (?S ! k) p st i1 = (o2, Inr (p', st', i2))"
    by simp_all
  have tk: "take (Suc k) ?S = take k ?S @ [?S ! k]"
    using k by (rule take_Suc_conv_app_nth)
  have d: "distinct (map name (take (Suc k) ?S))"
    using schema_distinct [of fp] by (simp only: take_map [symmetric] distinct_take)
  then have dk: "distinct (map name (take k ?S))" and nk: "?n \<notin> set (map name (take k ?S))"
    by (simp_all add: tk)
  from main_loop_grows [OF pre dk] have s: "subseq (keys st) (map name (take k ?S))"
    by (auto simp: keys_def)
  with nk show new: "?n \<notin> set (keys st)" using subseq_set by blast
  from field_step_cases [OF step] new
  show grow: "st' = st
         \<or> (\<exists>line v e. validator (?S ! k) (strip line) = Inr (True, v, e) \<and> st' = st @ [(?n, v)])"
    by (auto simp: dict_set_new)
  then have "keys st' = keys st \<or> keys st' = keys st @ [?n]"
    by (auto simp: keys_def)
  then show s': "subseq (keys st') (map name (take (Suc k) ?S))"
    using s by (auto simp: tk intro: subseq_rev_drop_many list_emb_append_mono)
  from s' d show "distinct (keys st')" by (rule subseq_distinct)
  from main_loop_snoc [OF pre step]
  show "main_loop fp w (take (Suc k) ?S) ''cooperative'' [] inputs = (o1 @ o2, Inr (p', st', i2))"
    by (simp add: tk)
qed


theorem answers_only_grow_witness:
  "1 < length (SCHEMA whole_floats)
   \<and> snd (main_loop whole_floats no_llm (take 1 (SCHEMA whole_floats)) ''cooperative'' [] [''C001'', ''30''])
       = Inr (''cooperative'', [(''CustomerID'', VStr ''C001'')], [''30''])
   \<and> snd (field_step whole_floats no_llm (SCHEMA whole_floats ! 1) ''cooperative''
             [(''CustomerID'', VStr ''C001'')] [''30''])
       = Inr (''cooperative'', [(''CustomerID'', VStr ''C001''), (''Age'', VInt 30)], [])
   \<and> (\<exists>line v e. validator (SCHEMA whole_floats ! 1) (strip line) = Inr (True, v, e)
         \<and> [(''CustomerID'', VStr ''C001''), (''Age'', VInt 30)]
             = [(''CustomerID'', VStr ''C001'')] @ [(name (SCHEMA whole_floats ! 1), v)])
   \<and> name (SCHEMA whole_floats ! 1) \<notin> set (keys [(''CustomerID'', VStr ''C001'' :: int pyval)])
   \<and> distinct (keys [(''CustomerID'', VStr ''C001''), (''Age'', VInt 30 :: int pyval)])
   \<and> subseq (keys [(''CustomerID'', VStr ''C001''), (''Age'', VInt 30 :: int pyval)])
        (map name (take (Suc 1) (SCHEMA whole_floats)))
   \<and> snd (main_loop whole_floats no_llm (take (Suc 1) (SCHEMA whole_floats)) ''cooperative'' [] [''C001'', ''30''])
       = Inr (''cooperative'', [(''CustomerID'', VStr ''C001''), (''Age'', VInt 30)], [])
   \<and> snd (main whole_floats no_llm student_inputs) = Inr student_answers
   \<and> distinct (keys student_answers)
   \<and> subseq (keys student_answers) (map name (SCHEMA whole_floats))"
proof -
  let ?S = "SCHEMA whole_floats"
  let ?st = "[(''CustomerID'', VStr ''C001'')] :: int answers"
  let ?st' = "[(''CustomerID'', VStr ''C001''), (''Age'', VInt 30)] :: int answers"
  let ?o1 = "fst (main_loop whole_floats no_llm (take 1 ?S) ''cooperative'' [] [''C001'', ''30''])"
  let ?o2 = "fst (field_step whole_floats no_llm (?S ! 1) ''cooperative'' ?st [''30''])"
  have e: "detect_persona ''C001'' = ''cooperative''" "detect_persona ''30'' = ''cooperative''"
    by code_simp+
  have a: "snd (main_loop whole_floats no_llm (take 1 ?S) ''cooperative'' [] [''C001'', ''30''])
       = Inr (''cooperative'', ?st, [''30''])"
    by (simp add: SCHEMA_def field_spec_def e
        snd_main_loop_Nil snd_main_loop_Cons snd_field_step_accept
        should_ask_def dict_set_def keys_def customer_id_def returns_def
        strip_def is_space_def is_upper_def is_lower_def is_alpha_def
        is_digit_def is_word_def fullmatch_id_def
      del: main_loop.simps)
  have b: "snd (field_step whole_floats no_llm (?S ! 1) ''cooperative'' ?st [''30''])
       = Inr (''cooperative'', ?st', [])"
    by (simp add: SCHEMA_def field_spec_def e snd_field_step_accept
        should_ask_def dict_set_def keys_def int_in_range_def
        strip_def is_space_def is_digit_def fullmatch_int_def digits1_def py_int_def
        int_value_def digit_count_def int_max_str_digits_def
        nat_of_digits_def digit_val_def Let_def)
  have a': "main_loop whole_floats no_llm (take 1 ?S) ''cooperative'' [] [''C001'', ''30'']
       = (?o1, Inr (''cooperative'', ?st, [''30'']))"
    using a by (metis prod.collapse)
  have b': "field_step whole_floats no_llm (?S ! 1) ''cooperative'' ?st [''30'']
       = (?o2, Inr (''cooperative'', ?st', []))"
    using b by (metis prod.collapse)
  have k: "1 < length ?S" by (simp add: schema_length)
  have ne: "?st' \<noteq> ?st" by simp
  from answers_only_grow [where k = 1 and fp = whole_floats and w = no_llm and inputs = "[''C001'', ''30'']"
        and p = "''cooperative''" and st = ?st and ?i1.0 = "[''30'']"
        and p' = "''cooperative''" and st' = ?st' and ?i2.0 = "[]"
        and ?o1.0 = ?o1 and ?o2.0 = ?o2] k a' b'
  have x: "(?st' = ?st
         \<or> (\<exists>line v e. validator (?S ! 1) (strip line) = Inr (True, v, e)
               \<and> ?st' = ?st @ [(name (?S ! 1), v)]))"
    "name (?S ! 1) \<notin> set (keys ?st)"
    "distinct (keys ?st')"
    "subseq (keys ?st') (map name (take (Suc 1) ?S))"
    "main_loop whole_floats no_llm (take (Suc 1) ?S) ''cooperative'' [] [''C001'', ''30'']
            = (?o1 @ ?o2, Inr (''cooperative'', ?st', []))"
    by blast+
  from x(1) ne have x1: "\<exists>line v e. validator (?S ! 1) (strip line) = Inr (True, v, e)
               \<and> ?st' = ?st @ [(name (?S ! 1), v)]"
    by blast
  from x(5) have x5: "snd (main_loop whole_floats no_llm (take (Suc 1) ?S) ''cooperative'' [] [''C001'', ''30''])
       = Inr (''cooperative'', ?st', [])"
    by (simp only: snd_conv)
  from answers_only_grow [where fp = whole_floats and w = no_llm and inputs = student_inputs
        and final = student_answers] student_run
  have y: "distinct (keys student_answers)" "subseq (keys student_answers) (map name ?S)"
    by blast+
  show ?thesis
    by (intro conjI) (rule k a b x1 x(2) x(3) x(4) x5 student_run y)+
qed


end
